theory Spec2Isabelle
  imports Main "HOL-Library.AList"
begin

section \<open>Rule documents\<close>

text \<open>
  A stored value is a string (\<open>ptype\<close>, \<open>v0\<close> .. \<open>v5\<close>) or a date (\<open>createdAt\<close>,
  \<open>updatedAt\<close>; a date is its number of milliseconds). A document is a JavaScript object:
  an association list with distinct keys, in insertion order. Assigning a property is
  \<open>AList.update\<close> (an existing key keeps its place, a new key goes last), which is also what the
  object spread followed by further properties does.
\<close>

datatype bson = BStr string | BDate nat

type_synonym document = "(string \<times> bson) list"

definition hasOwnProperty :: "document \<Rightarrow> string \<Rightarrow> bool" where
  "hasOwnProperty d k = (map_of d k \<noteq> None)"

definition keys :: "document \<Rightarrow> string list" where
  "keys d = map fst d"

text \<open>The template literal \<open>`v${i}`\<close>: the letter v and the decimal digits of \<open>i\<close>.\<close>

fun digits :: "nat \<Rightarrow> string" where
  "digits n = (if n < 10 then [''0123456789'' ! n]
               else digits (n div 10) @ [''0123456789'' ! (n mod 10)])"

definition vkey :: "nat \<Rightarrow> string" where
  "vkey i = CHR ''v'' # digits i"

datatype timestampOption = TsNone | UpdatedOnly | Both

text \<open>
  The loop of \<open>convertRuleToDocument\<close>:
  \<open>for (let i = 0; i < rule.length && i < 6; i++) line[`v${i}`] = rule[i]\<close>.
\<close>

function convertLoop :: "nat \<Rightarrow> string list \<Rightarrow> document \<Rightarrow> document" where
  "convertLoop i rule line =
     (if i < length rule \<and> i < 6
      then convertLoop (Suc i) rule (AList.update (vkey i) (BStr (rule ! i)) line)
      else line)"
  by pat_completeness auto
termination
  by (relation "measure (\<lambda>(i, rule, line). 6 - i)") auto

declare convertLoop.simps [simp del]

text \<open>
  \<open>now\<close> is the value that \<open>new Date()\<close> returns when the function reaches it; with the option
  \<open>none\<close> the clock is not read.
\<close>

definition convertRuleToDocument ::
    "nat \<Rightarrow> string \<Rightarrow> string list \<Rightarrow> timestampOption \<Rightarrow> document" where
  "convertRuleToDocument now pt rule timestampOption =
     (let line = convertLoop 0 rule [(''ptype'', BStr pt)] in
      case timestampOption of
        TsNone \<Rightarrow> line
      | UpdatedOnly \<Rightarrow> AList.update ''updatedAt'' (BDate now) line
      | Both \<Rightarrow> AList.update ''updatedAt'' (BDate now)
                  (AList.update ''createdAt'' (BDate now) line))"

definition savePolicyLine :: "nat \<Rightarrow> string \<Rightarrow> string list \<Rightarrow> document" where
  "savePolicyLine now pt rule = convertRuleToDocument now pt rule Both"

definition deletePolicyLine :: "string \<Rightarrow> string list \<Rightarrow> document" where
  "deletePolicyLine pt rule = convertRuleToDocument 0 pt rule TsNone"

definition updatePolicyLine :: "nat \<Rightarrow> string \<Rightarrow> string list \<Rightarrow> document" where
  "updatePolicyLine now pt rule = convertRuleToDocument now pt rule UpdatedOnly"

text \<open>The positional part of a document built from a rule, in closed form.\<close>

definition ruleFields :: "string list \<Rightarrow> document" where
  "ruleFields rule = map (\<lambda>i. (vkey i, BStr (rule ! i))) [0..<min (length rule) 6]"

section \<open>Errors\<close>

text \<open>
  \<open>DriverError\<close> is an error thrown by the MongoDB client or by the enforcer's hook, with
  its message. \<open>MongoAdapterError\<close> is the adapter's own error class: a message and the
  cause it was wrapped around, when there is one.
\<close>

datatype error = DriverError string | MongoAdapterError string "error option"

fun message :: "error \<Rightarrow> string" where
  "message (DriverError m) = m"
| "message (MongoAdapterError m cause) = m"

definition wrapError :: "error \<Rightarrow> string \<Rightarrow> error" where
  "wrapError e ctxt = MongoAdapterError (ctxt @ '': '' @ message e) (Some e)"

definition quoted :: "string \<Rightarrow> string" where
  "quoted name = [CHR 0x27] @ name @ [CHR 0x27]"

section \<open>The document store\<close>

text \<open>
  The calls that the adapter makes on the MongoDB client. \<open>UpdateOne q st un\<close> is
  \<open>updateOne(q, {$set: st, $unset: un})\<close>; \<open>Find None\<close> is \<open>find()\<close> and
  \<open>find(undefined)\<close>; \<open>GetCollection\<close> and \<open>GetDatabase\<close> are the handle look-ups
  \<open>mongoClient.db(..)\<close> and \<open>mongoClient.db(..).collection(..)\<close>, which touch no
  network but may throw.
\<close>

datatype command =
    GetCollection
  | GetDatabase
  | ListCollections string
  | Drop
  | Find "document option"
  | InsertOne document
  | InsertMany "document list"
  | UpdateOne document document document
  | DeleteOne document
  | DeleteMany document

text \<open>
  The store is the adapter's one collection (\<open>None\<close> while the collection does not exist),
  the calls made so far, and what the environment decides: call number \<open>k\<close> throws the
  message \<open>faults k\<close> when there is one, and when call number \<open>k\<close> is to act on one
  document and several match, \<open>choice k\<close> says which of them the server reaches.
\<close>

record store =
  coll :: "document list option"
  calls :: "command list"
  faults :: "nat \<Rightarrow> string option"
  choice :: "nat \<Rightarrow> nat"

text \<open>
  What the MongoDB server does with these calls is not code of the adapter; it is modelled
  here as far as the adapter relies on it. A filter of the kind the adapter sends (fields
  with the values they must equal) matches a document that has every one of the filter's
  fields with the same value, whatever other fields the document has. \<open>updateOne\<close> and
  \<open>deleteOne\<close> act on one document that matches, when there is one; which one, among
  several, is the server's choice and is not fixed here. \<open>deleteMany\<close> acts on all of
  them, and \<open>find\<close> returns the matching documents in the order of the collection. An
  insertion appends the document as it is given (the identifier that the server adds is
  left out) and creates the collection when there is none.
\<close>

definition matches :: "document \<Rightarrow> document \<Rightarrow> bool" where
  "matches q d = list_all (\<lambda>(k, v). map_of d k = Some v) q"

definition chosen :: "nat \<Rightarrow> ('a \<Rightarrow> bool) \<Rightarrow> 'a list \<Rightarrow> nat option" where
  "chosen n P xs =
     (let found = filter (\<lambda>i. P (xs ! i)) [0..<length xs] in
      if found = [] then None else Some (found ! (n mod length found)))"

definition changeOne :: "nat \<Rightarrow> ('a \<Rightarrow> bool) \<Rightarrow> ('a \<Rightarrow> 'a) \<Rightarrow> 'a list \<Rightarrow> 'a list" where
  "changeOne n P f xs = (case chosen n P xs of None \<Rightarrow> xs | Some i \<Rightarrow> xs[i := f (xs ! i)])"

definition removeOne :: "nat \<Rightarrow> ('a \<Rightarrow> bool) \<Rightarrow> 'a list \<Rightarrow> 'a list" where
  "removeOne n P xs = (case chosen n P xs of None \<Rightarrow> xs | Some i \<Rightarrow> take i xs @ drop (Suc i) xs)"

definition applyUpdate :: "document \<Rightarrow> document \<Rightarrow> document \<Rightarrow> document" where
  "applyUpdate st un d =
     fold (\<lambda>(k, v). AList.delete k) un (fold (\<lambda>(k, v). AList.update k v) st d)"

fun contents :: "document list option \<Rightarrow> document list" where
  "contents None = []"
| "contents (Some ds) = ds"

fun effect :: "command \<Rightarrow> nat \<Rightarrow> document list option \<Rightarrow> document list option" where
  "effect (InsertOne d) n c = Some (contents c @ [d])"
| "effect (InsertMany ds) n c = Some (contents c @ ds)"
| "effect (UpdateOne q st un) n c = map_option (changeOne n (matches q) (applyUpdate st un)) c"
| "effect (DeleteOne q) n c = map_option (removeOne n (matches q)) c"
| "effect (DeleteMany q) n c = map_option (filter (\<lambda>d. \<not> matches q d)) c"
| "effect Drop n c = None"
| "effect (Find q) n c = c"
| "effect (ListCollections name) n c = c"
| "effect GetCollection n c = c"
| "effect GetDatabase n c = c"

fun reply :: "command \<Rightarrow> document list option \<Rightarrow> document list" where
  "reply (Find None) c = contents c"
| "reply (Find (Some q)) c = filter (matches q) (contents c)"
| "reply (ListCollections name) c =
     (case c of None \<Rightarrow> [] | Some ds \<Rightarrow> [[(''name'', BStr name)]])"
| "reply other c = []"

text \<open>
  One call on the client: it is recorded, and it either throws what the environment says
  or has its effect and returns its reply. The client refuses an empty \<open>insertMany\<close>.
\<close>

definition exec :: "command \<Rightarrow> store \<Rightarrow> (error + document list) \<times> store" where
  "exec c s =
     (let s' = s\<lparr>calls := calls s @ [c]\<rparr> in
      case faults s (length (calls s)) of
        Some m \<Rightarrow> (Inl (DriverError m), s')
      | None \<Rightarrow>
          if c = InsertMany []
          then (Inl (DriverError ''Invalid BulkOperation, Batch cannot be empty''), s')
          else (Inr (reply c (coll s)),
                s'\<lparr>coll := effect c (choice s (length (calls s))) (coll s)\<rparr>))"

text \<open>Sequencing of calls that may throw, and \<open>try { .. } catch (error) { throw wrapError .. }\<close>.\<close>

definition andThen ::
    "(error + 'a) \<times> store \<Rightarrow> ('a \<Rightarrow> store \<Rightarrow> (error + 'b) \<times> store) \<Rightarrow> (error + 'b) \<times> store" where
  "andThen r f = (case r of (Inl e, s) \<Rightarrow> (Inl e, s) | (Inr x, s) \<Rightarrow> f x s)"

definition catch :: "(error + 'a) \<times> store \<Rightarrow> string \<Rightarrow> (error + 'a) \<times> store" where
  "catch r ctxt = (case r of (Inl e, s) \<Rightarrow> (Inl (wrapError e ctxt), s) | (Inr x, s) \<Rightarrow> (Inr x, s))"

definition discard :: "(error + 'a) \<times> store \<Rightarrow> (error + unit) \<times> store" where
  "discard r = andThen r (\<lambda>x s. (Inr (), s))"

section \<open>The adapter\<close>

record MongoAdapter =
  databaseName :: string
  collectionName :: string
  dropCollectionOnManualSave :: bool
  useFilter :: bool

text \<open>
  The constructor. \<open>newMongoClient\<close> is the client's constructor \<open>new MongoClient(uri,
  options)\<close>, which opens no connection and may throw.
\<close>

definition new_MongoAdapter ::
    "(string \<Rightarrow> 'o \<Rightarrow> error + unit) \<Rightarrow> string \<Rightarrow> string \<Rightarrow> string \<Rightarrow> bool \<Rightarrow> 'o \<Rightarrow> bool
      \<Rightarrow> error + MongoAdapter" where
  "new_MongoAdapter newMongoClient uri database collection filtered options dropOnSave =
     (if uri = []
      then Inl (MongoAdapterError ''MongoDB URI is required.'' None)
      else case newMongoClient uri options of
             Inl e \<Rightarrow> Inl (wrapError e ''Failed to create MongoClient'')
           | Inr client \<Rightarrow>
               Inr \<lparr>databaseName = database, collectionName = collection,
                    dropCollectionOnManualSave = dropOnSave, useFilter = filtered\<rparr>)"

definition isFiltered :: "MongoAdapter \<Rightarrow> bool" where
  "isFiltered a = useFilter a"

definition getCollection :: "MongoAdapter \<Rightarrow> store \<Rightarrow> (error + unit) \<times> store" where
  "getCollection a s =
     catch (discard (exec GetCollection s))
       (''Failed to get collection '' @ quoted (collectionName a))"

definition getDatabase :: "MongoAdapter \<Rightarrow> store \<Rightarrow> (error + unit) \<times> store" where
  "getDatabase a s =
     catch (discard (exec GetDatabase s))
       (''Failed to get database '' @ quoted (databaseName a))"

text \<open>\<open>this.getCollection().c(..)\<close>: the handle first, then the call.\<close>

definition onCollection ::
    "MongoAdapter \<Rightarrow> command \<Rightarrow> store \<Rightarrow> (error + document list) \<times> store" where
  "onCollection a c s = andThen (getCollection a s) (\<lambda>u. exec c)"

subsection \<open>Loading\<close>

text \<open>
  A field of a stored document, read as the interface \<open>CasbinRule\<close> types it: a string, or
  \<open>undefined\<close> when the document has no such field. The interface has no other case; a
  date stored under such a key is outside it and is read here as no field.
\<close>

definition field :: "document \<Rightarrow> string \<Rightarrow> string option" where
  "field d k = (case map_of d k of Some (BStr x) \<Rightarrow> Some x | Some (BDate t) \<Rightarrow> None | None \<Rightarrow> None)"

text \<open>JavaScript's truthiness, string concatenation and \<open>Array.prototype.join\<close> on such values.\<close>

fun truthy :: "string option \<Rightarrow> bool" where
  "truthy None = False"
| "truthy (Some x) = (x \<noteq> [])"

fun concatString :: "string option \<Rightarrow> string" where
  "concatString None = ''undefined''"
| "concatString (Some x) = x"

fun joinString :: "string option \<Rightarrow> string" where
  "joinString None = []"
| "joinString (Some x) = x"

fun join :: "string \<Rightarrow> string option list \<Rightarrow> string" where
  "join sep [] = []"
| "join sep [x] = joinString x"
| "join sep (x # y # ys) = joinString x @ sep @ join sep (y # ys)"

text \<open>The string \<open>result\<close> of \<open>loadPolicyLine\<close>, and the method: it hands the string to the hook.\<close>

definition loadPolicyLine_result :: "document \<Rightarrow> string" where
  "loadPolicyLine_result line =
     concatString (field line ''ptype'') @ '', '' @
     join '', '' (filter truthy
       [field line ''v0'', field line ''v1'', field line ''v2'',
        field line ''v3'', field line ''v4'', field line ''v5''])"

definition loadPolicyLine ::
    "(string \<Rightarrow> 'm \<Rightarrow> error + 'm) \<Rightarrow> document \<Rightarrow> 'm \<Rightarrow> error + 'm" where
  "loadPolicyLine hook line model = hook (loadPolicyLine_result line) model"

text \<open>\<open>lines.forEach((line) => this.loadPolicyLine(line, model))\<close>; a throw ends the loop.\<close>

fun forEach_loadPolicyLine ::
    "(string \<Rightarrow> 'm \<Rightarrow> error + 'm) \<Rightarrow> document list \<Rightarrow> 'm \<Rightarrow> (error + unit) \<times> 'm" where
  "forEach_loadPolicyLine hook [] model = (Inr (), model)"
| "forEach_loadPolicyLine hook (line # lines) model =
     (case loadPolicyLine hook line model of
        Inl e \<Rightarrow> (Inl e, model)
      | Inr model' \<Rightarrow> forEach_loadPolicyLine hook lines model')"

definition getFilteredPolicyLines ::
    "MongoAdapter \<Rightarrow> document option \<Rightarrow> store \<Rightarrow> (error + document list) \<times> store" where
  "getFilteredPolicyLines a flt s =
     andThen (getCollection a s)
       (\<lambda>u. if useFilter a then exec (Find flt) else exec (Find None))"

text \<open>
  \<open>loadFilteredPolicy\<close> returns its outcome, the model as the hook left it, and the adapter
  object as the call left it (the method assigns none of its fields).
\<close>

definition loadFilteredPolicy ::
    "MongoAdapter \<Rightarrow> (string \<Rightarrow> 'm \<Rightarrow> error + 'm) \<Rightarrow> 'm \<Rightarrow> document option \<Rightarrow> store
      \<Rightarrow> ((error + unit) \<times> 'm \<times> MongoAdapter) \<times> store" where
  "loadFilteredPolicy a hook model flt s =
     (case getFilteredPolicyLines a flt s of
        (Inl e, s') \<Rightarrow> ((Inl (wrapError e ''Failed to load filtered policy''), model, a), s')
      | (Inr lines, s') \<Rightarrow>
          (case forEach_loadPolicyLine hook lines model of
             (Inl e, model') \<Rightarrow>
               ((Inl (wrapError e ''Failed to load filtered policy''), model', a), s')
           | (Inr u, model') \<Rightarrow> ((Inr (), model', a), s')))"

definition loadPolicy ::
    "MongoAdapter \<Rightarrow> (string \<Rightarrow> 'm \<Rightarrow> error + 'm) \<Rightarrow> 'm \<Rightarrow> store
      \<Rightarrow> ((error + unit) \<times> 'm \<times> MongoAdapter) \<times> store" where
  "loadPolicy a hook model s = loadFilteredPolicy a hook model None s"

subsection \<open>Saving\<close>

text \<open>
  What the adapter reads of the enforcer's model: \<open>model.model.get(key)\<close> is undefined or
  a map, in insertion order, from each declared rule type to its current rules
  (\<open>ast.policy\<close>).
\<close>

type_synonym policyModel = "string \<Rightarrow> (string \<times> string list list) list option"

text \<open>
  \<open>savePolicyLine\<close> reads the clock once for each rule; \<open>clk j\<close> is the reading of the
  \<open>j\<close>-th \<open>new Date()\<close> of the call, and \<open>i\<close> counts the readings already taken. The
  \<open>flatMap\<close> over the entries with a \<open>map\<close> over each entry's rules visits the pairs of
  rule type and rule in the order of their concatenation.
\<close>

definition extractPolicyRules ::
    "(nat \<Rightarrow> nat) \<Rightarrow> nat \<Rightarrow> policyModel \<Rightarrow> string \<Rightarrow> document list" where
  "extractPolicyRules clk i model key =
     (case model key of
        None \<Rightarrow> []
      | Some astMap \<Rightarrow>
          map (\<lambda>(j, (pt, rule)). savePolicyLine (clk j) pt rule)
            (List.enumerate i (concat (map (\<lambda>(pt, policy). map (Pair pt) policy) astMap))))"

definition getAllPolicyRules :: "(nat \<Rightarrow> nat) \<Rightarrow> policyModel \<Rightarrow> document list" where
  "getAllPolicyRules clk model =
     (let p = extractPolicyRules clk 0 model ''p'' in
      p @ extractPolicyRules clk (length p) model ''g'')"

definition clearCollection :: "MongoAdapter \<Rightarrow> store \<Rightarrow> (error + unit) \<times> store" where
  "clearCollection a s =
     catch
       (andThen (getDatabase a s) (\<lambda>u s1.
        andThen (exec (ListCollections (collectionName a)) s1) (\<lambda>list s2.
          if length list > 0 then
            if dropCollectionOnManualSave a
            then discard (onCollection a Drop s2)
            else discard (onCollection a (DeleteMany []) s2)
          else (Inr (), s2))))
       (''Failed to clear collection '' @ quoted (collectionName a))"

definition savePolicy ::
    "MongoAdapter \<Rightarrow> (nat \<Rightarrow> nat) \<Rightarrow> policyModel \<Rightarrow> store \<Rightarrow> (error + bool) \<times> store" where
  "savePolicy a clk model s =
     andThen (clearCollection a s) (\<lambda>u s1.
       let allRules = getAllPolicyRules clk model in
       if length allRules > 0
       then andThen (onCollection a (InsertMany allRules) s1) (\<lambda>r s2. (Inr True, s2))
       else (Inr True, s1))"

subsection \<open>Single rules and batches\<close>

definition addPolicy ::
    "MongoAdapter \<Rightarrow> nat \<Rightarrow> string \<Rightarrow> string \<Rightarrow> string list \<Rightarrow> store \<Rightarrow> (error + unit) \<times> store" where
  "addPolicy a now sec pt rule s =
     (let line = savePolicyLine now pt rule in discard (onCollection a (InsertOne line) s))"

text \<open>
  The \<open>$unset\<close> document of \<open>updatePolicy\<close>: the \<open>reduce\<close> over \<open>Object.keys(oldLine)\<close>
  from the empty object.
\<close>

definition unsetFields :: "document \<Rightarrow> document \<Rightarrow> document" where
  "unsetFields oldLine newLine =
     foldl (\<lambda>acc key.
              if \<not> hasOwnProperty newLine key \<and> key \<noteq> ''createdAt'' \<and> key \<noteq> ''updatedAt''
              then AList.update key (BStr []) acc
              else acc)
       [] (keys oldLine)"

definition updateCommand :: "nat \<Rightarrow> string \<Rightarrow> string list \<Rightarrow> string list \<Rightarrow> command" where
  "updateCommand now pt oldRule newRule =
     (let oldLine = deletePolicyLine pt oldRule;
          newLine = updatePolicyLine now pt newRule
      in UpdateOne oldLine newLine (unsetFields oldLine newLine))"

definition updatePolicy ::
    "MongoAdapter \<Rightarrow> nat \<Rightarrow> string \<Rightarrow> string \<Rightarrow> string list \<Rightarrow> string list \<Rightarrow> store
      \<Rightarrow> (error + unit) \<times> store" where
  "updatePolicy a now sec pt oldRule newRule s =
     discard (onCollection a (updateCommand now pt oldRule newRule) s)"

definition removePolicy ::
    "MongoAdapter \<Rightarrow> string \<Rightarrow> string \<Rightarrow> string list \<Rightarrow> store \<Rightarrow> (error + unit) \<times> store" where
  "removePolicy a sec pt rule s =
     (let line = deletePolicyLine pt rule in discard (onCollection a (DeleteOne line) s))"

definition addPolicies ::
    "MongoAdapter \<Rightarrow> (nat \<Rightarrow> nat) \<Rightarrow> string \<Rightarrow> string \<Rightarrow> string list list \<Rightarrow> store
      \<Rightarrow> (error + unit) \<times> store" where
  "addPolicies a clk sec pt rules s =
     (let lines = map (\<lambda>(j, r). savePolicyLine (clk j) pt r) (List.enumerate 0 rules)
      in discard (onCollection a (InsertMany lines) s))"

text \<open>
  \<open>removePolicies\<close> builds one \<open>deletePolicyLine\<close> key for each rule; then, for each key in
  turn, it obtains the collection handle and starts a \<open>deleteOne\<close>; and it awaits the
  promises of these deletions together, with \<open>Promise.all\<close>. Starting a deletion is a call
  on the client; the deletion takes effect, or fails, later, when it settles.
  \<open>startDeletes\<close> is the loop that starts the deletions: it gives the error of a handle
  look-up that threw, which ends the loop, and the deletions started, each with the number
  of its call.
\<close>

fun startDeletes ::
    "MongoAdapter \<Rightarrow> document list \<Rightarrow> store \<Rightarrow> error option \<times> (nat \<times> document) list \<times> store" where
  "startDeletes a [] s = (None, [], s)"
| "startDeletes a (line # lines) s =
     (case getCollection a s of
        (Inl e, s1) \<Rightarrow> (Some e, [], s1)
      | (Inr u, s1) \<Rightarrow>
          (case startDeletes a lines (s1\<lparr>calls := calls s1 @ [DeleteOne line]\<rparr>) of
             (err, pending, s2) \<Rightarrow> (err, (length (calls s1), line) # pending, s2)))"

text \<open>
  A started deletion settles: it fails as the environment says for its call, or takes
  effect. The order in which the started deletions settle is not the adapter's: it is
  given as \<open>order\<close>, the positions of the deletions in the order of their settling.
\<close>

definition settle :: "nat \<times> document \<Rightarrow> store \<Rightarrow> error option \<times> store" where
  "settle p s =
     (case faults s (fst p) of
        Some m \<Rightarrow> (Some (DriverError m), s)
      | None \<Rightarrow> (None, s\<lparr>coll := effect (DeleteOne (snd p)) (choice s (fst p)) (coll s)\<rparr>))"

fun settleAll :: "(nat \<times> document) list \<Rightarrow> store \<Rightarrow> error option list \<times> store" where
  "settleAll [] s = ([], s)"
| "settleAll (p # ps) s =
     (case settle p s of (r, s1) \<Rightarrow> (case settleAll ps s1 of (rs, s2) \<Rightarrow> (r # rs, s2)))"

text \<open>
  \<open>Promise.all\<close> over the promises, given their outcomes in the order of their settling:
  it is fulfilled when all of them are, and it is rejected as soon as one of them is
  rejected, with the error of that one. The number is how many of the promises have
  settled at that moment.
\<close>

fun firstRejection :: "error option list \<Rightarrow> (nat \<times> error) option" where
  "firstRejection [] = None"
| "firstRejection (None # rs) = map_option (\<lambda>(i, e). (Suc i, e)) (firstRejection rs)"
| "firstRejection (Some e # rs) = Some (0, e)"

definition promiseAll :: "error option list \<Rightarrow> (error + unit) \<times> nat" where
  "promiseAll rs =
     (case firstRejection rs of
        None \<Rightarrow> (Inr (), length rs)
      | Some (i, e) \<Rightarrow> (Inl e, Suc i))"

text \<open>
  \<open>removePolicies\<close> gives its outcome, the number of deletions that had settled when it
  completed, and the store once every deletion that was started has settled. A handle
  look-up that throws makes it fail at once, before any deletion has settled.
\<close>

definition removePolicies ::
    "MongoAdapter \<Rightarrow> string \<Rightarrow> string \<Rightarrow> string list list \<Rightarrow> nat list \<Rightarrow> store
      \<Rightarrow> ((error + unit) \<times> nat) \<times> store" where
  "removePolicies a sec pt rules order s =
     (let lines = map (deletePolicyLine pt) rules in
      case startDeletes a lines s of
        (err, pending, s1) \<Rightarrow>
          (case settleAll (map (\<lambda>i. pending ! i) (filter (\<lambda>i. i < length pending) order)) s1 of
             (rs, s2) \<Rightarrow>
               (case err of
                  Some e \<Rightarrow> ((Inl e, 0), s2)
                | None \<Rightarrow> (promiseAll rs, s2))))"

text \<open>
  The loop of \<open>removeFilteredPolicy\<close> over \<open>i = 0 .. 5\<close>; \<open>fieldIndex\<close> is a JavaScript
  number, taken here as an integer.
\<close>

function filterLoop :: "nat \<Rightarrow> int \<Rightarrow> string list \<Rightarrow> document \<Rightarrow> document" where
  "filterLoop i fieldIndex fieldValues line =
     (if i < 6
      then filterLoop (Suc i) fieldIndex fieldValues
             (if fieldIndex \<le> int i \<and> int i < fieldIndex + int (length fieldValues)
              then AList.update (vkey i) (BStr (fieldValues ! nat (int i - fieldIndex))) line
              else line)
      else line)"
  by pat_completeness auto
termination
  by (relation "measure (\<lambda>(i, fieldIndex, fieldValues, line). 6 - i)") auto

declare filterLoop.simps [simp del]

definition removeFilteredLine :: "string \<Rightarrow> int \<Rightarrow> string list \<Rightarrow> document" where
  "removeFilteredLine pt fieldIndex fieldValues =
     filterLoop 0 fieldIndex fieldValues [(''ptype'', BStr pt)]"

definition removeFilteredPolicy ::
    "MongoAdapter \<Rightarrow> string \<Rightarrow> string \<Rightarrow> int \<Rightarrow> string list \<Rightarrow> store \<Rightarrow> (error + unit) \<times> store" where
  "removeFilteredPolicy a sec pt fieldIndex fieldValues s =
     (let line = removeFilteredLine pt fieldIndex fieldValues
      in discard (onCollection a (DeleteMany line) s))"

subsection \<open>The statements to compare with\<close>

text \<open>
  The documents that a filtered removal selects, stated on the six positions: the
  \<open>ptype\<close> is the given one and, for every position \<open>i\<close> of \<open>v0 .. v5\<close> inside the window
  that starts at the offset and is as long as the value list, the field \<open>v\<close>\<open>i\<close> is the
  value given for that position.
\<close>

definition inWindow :: "int \<Rightarrow> string list \<Rightarrow> nat \<Rightarrow> bool" where
  "inWindow fieldIndex fieldValues i =
     (fieldIndex \<le> int i \<and> int i < fieldIndex + int (length fieldValues))"

definition windowSelects :: "string \<Rightarrow> int \<Rightarrow> string list \<Rightarrow> document \<Rightarrow> bool" where
  "windowSelects pt fieldIndex fieldValues d =
     (map_of d ''ptype'' = Some (BStr pt) \<and>
      list_all (\<lambda>i. inWindow fieldIndex fieldValues i \<longrightarrow>
                    map_of d (vkey i) = Some (BStr (fieldValues ! nat (int i - fieldIndex))))
        [0..<6])"

text \<open>
  The same, as the filtered removal is stated without regard to the six positions: every
  given value \<open>x\<close>\<open>j\<close> is the document's field \<open>v\<close>\<open>(offset + j)\<close>.
\<close>

definition selectsAsStated :: "string \<Rightarrow> int \<Rightarrow> string list \<Rightarrow> document \<Rightarrow> bool" where
  "selectsAsStated pt fieldIndex fieldValues d =
     (map_of d ''ptype'' = Some (BStr pt) \<and>
      list_all (\<lambda>j. map_of d (vkey (nat (fieldIndex + int j))) = Some (BStr (fieldValues ! j)))
        [0..<length fieldValues])"

text \<open>
  The rules that the model holds under a key, as pairs of rule type and rule: for each
  rule type in turn, its rules in order.
\<close>

definition modelRules :: "policyModel \<Rightarrow> string \<Rightarrow> (string \<times> string list) list" where
  "modelRules model key =
     (case model key of
        None \<Rightarrow> []
      | Some astMap \<Rightarrow> concat (map (\<lambda>(pt, policy). map (Pair pt) policy) astMap))"

text \<open>Joining plain strings, and the positional fields of a document that are present and non-empty.\<close>

fun joinWith :: "string \<Rightarrow> string list \<Rightarrow> string" where
  "joinWith sep [] = []"
| "joinWith sep [x] = x"
| "joinWith sep (x # y # ys) = x @ sep @ joinWith sep (y # ys)"

definition presentFields :: "document \<Rightarrow> string list" where
  "presentFields d =
     concat (map (\<lambda>i. case field d (vkey i) of
                        None \<Rightarrow> []
                      | Some x \<Rightarrow> if x = [] then [] else [x])
               [0..<6])"

text \<open>
  The line of a document as the load operation is stated: \<open>ptype\<close>, then the fields
  \<open>v0 .. v5\<close> in their places up to the last one that is present, only the absent
  trailing ones being left out.
\<close>

definition fieldsAsStated :: "document \<Rightarrow> string list" where
  "fieldsAsStated d =
     map joinString
       (rev (dropWhile (\<lambda>f. f = None) (rev (map (\<lambda>i. field d (vkey i)) [0..<6]))))"

definition lineAsStated :: "document \<Rightarrow> string" where
  "lineAsStated d = concatString (field d ''ptype'') @ '', '' @ joinWith '', '' (fieldsAsStated d)"

subsection \<open>Example data\<close>

text \<open>
  A store whose collection exists and is empty, in an environment that never fails and
  reaches the first of several matching documents, and an adapter constructed with both
  flags at their defaults.
\<close>

definition emptyStore :: store where
  "emptyStore = \<lparr>coll = Some [], calls = [], faults = (\<lambda>k. None), choice = (\<lambda>k. 0)\<rparr>"

definition exampleAdapter :: MongoAdapter where
  "exampleAdapter = \<lparr>databaseName = ''casbin'', collectionName = ''policies'',
                      dropCollectionOnManualSave = False, useFilter = False\<rparr>"

text \<open>A model with two rules under \<open>p\<close> and one under \<open>g\<close>.\<close>

definition exampleModel :: policyModel where
  "exampleModel key =
     (if key = ''p''
      then Some [(''p'', [[''frank'', ''data6'', ''read''], [''grace'', ''data7'', ''write'']])]
      else if key = ''g'' then Some [(''g'', [[''frank'', ''admin'']])]
      else None)"

text \<open>Three rules, and a collection that holds their documents and one more.\<close>

definition threeRules :: "string list list" where
  "threeRules = [[''alice'', ''data1'', ''read''], [''bob'', ''data2'', ''write''],
                 [''carol'', ''data3'', ''read'']]"

definition fourDocuments :: "document list" where
  "fourDocuments =
     [[(''ptype'', BStr ''p''), (''v0'', BStr ''alice''), (''v1'', BStr ''data1''),
       (''v2'', BStr ''read''), (''createdAt'', BDate 1), (''updatedAt'', BDate 1)],
      [(''ptype'', BStr ''p''), (''v0'', BStr ''bob''), (''v1'', BStr ''data2''),
       (''v2'', BStr ''write''), (''createdAt'', BDate 2), (''updatedAt'', BDate 2)],
      [(''ptype'', BStr ''p''), (''v0'', BStr ''carol''), (''v1'', BStr ''data3''),
       (''v2'', BStr ''read''), (''createdAt'', BDate 3), (''updatedAt'', BDate 3)],
      [(''ptype'', BStr ''p''), (''v0'', BStr ''dave''), (''v1'', BStr ''data4''),
       (''v2'', BStr ''read''), (''createdAt'', BDate 4), (''updatedAt'', BDate 4)]]"

section \<open>Document construction\<close>

lemma vkey_simps:
  "vkey 0 = ''v0''" "vkey (Suc 0) = ''v1''" "vkey 2 = ''v2''"
  "vkey 3 = ''v3''" "vkey 4 = ''v4''" "vkey 5 = ''v5''"
  by (simp_all add: vkey_def)

lemma below_six:
  "i < 6 \<Longrightarrow> i = 0 \<or> i = Suc 0 \<or> i = 2 \<or> i = 3 \<or> i = 4 \<or> i = (5::nat)"
  by arith

lemma vkey_cases:
  assumes "i < 6"
  shows "vkey i \<in> {''v0'', ''v1'', ''v2'', ''v3'', ''v4'', ''v5''}"
  using below_six [OF assms] by (auto simp: vkey_simps)

lemma vkey_inj: "i < 6 \<Longrightarrow> j < 6 \<Longrightarrow> vkey i = vkey j \<longleftrightarrow> i = j"
proof -
  assume "i < 6" "j < 6"
  from below_six [OF this(1)] below_six [OF this(2)] show ?thesis
    by (elim disjE) (simp_all add: vkey_simps)
qed

lemma vkey_not_reserved:
  "i < 6 \<Longrightarrow> vkey i \<noteq> ''ptype'' \<and> vkey i \<noteq> ''createdAt'' \<and> vkey i \<noteq> ''updatedAt''"
  using vkey_cases [of i] by auto

lemma update_fresh: "k \<notin> fst ` set al \<Longrightarrow> AList.update k v al = al @ [(k, v)]"
  by (induction al) auto

lemma convertLoop_closed:
  "i \<le> 6 \<Longrightarrow> i \<le> length rule \<Longrightarrow> fst ` set base \<inter> vkey ` {..<6} = {} \<Longrightarrow>
   convertLoop i rule (base @ map (\<lambda>i. (vkey i, BStr (rule ! i))) [0..<i])
     = base @ ruleFields rule"
proof (induction "6 - i" arbitrary: i)
  case 0
  then have i: "i = 6" by simp
  with 0 have "min (length rule) 6 = 6" by simp
  with i show ?case
    by (subst convertLoop.simps) (simp add: ruleFields_def)
next
  case (Suc n)
  then have i6: "i < 6" by simp
  show ?case
  proof (cases "i < length rule")
    case True
    let ?f = "\<lambda>i. (vkey i, BStr (rule ! i))"
    have fresh: "vkey i \<notin> fst ` set (base @ map ?f [0..<i])"
    proof
      assume "vkey i \<in> fst ` set (base @ map ?f [0..<i])"
      then consider "vkey i \<in> fst ` set base" | j where "j < i" "vkey i = vkey j"
        by auto
      then show False
      proof cases
        case 1
        with Suc.prems(3) i6 show False by blast
      next
        case 2
        with i6 vkey_inj [of i j] show False by simp
      qed
    qed
    have "convertLoop i rule (base @ map ?f [0..<i])
        = convertLoop (Suc i) rule (base @ map ?f [0..<Suc i])"
      using True i6 by (subst convertLoop.simps) (simp add: update_fresh [OF fresh])
    also have "\<dots> = base @ ruleFields rule"
      using Suc.hyps(1) [of "Suc i"] Suc.hyps(2) Suc.prems(3) True i6 by simp
    finally show ?thesis .
  next
    case False
    with Suc.prems have "min (length rule) 6 = i" by simp
    with False show ?thesis
      by (subst convertLoop.simps) (simp add: ruleFields_def)
  qed
qed

lemma convertLoop_ptype:
  "convertLoop 0 rule [(''ptype'', BStr pt)] = (''ptype'', BStr pt) # ruleFields rule"
proof -
  have "fst ` set [(''ptype'', BStr pt)] \<inter> vkey ` {..<6} = {}"
    by (auto dest!: vkey_not_reserved)
  from convertLoop_closed [OF _ _ this, of 0 rule] show ?thesis by simp
qed

lemma ruleFields_keys: "fst ` set (ruleFields rule) = vkey ` {..<min (length rule) 6}"
  by (auto simp: ruleFields_def image_iff) force

lemma reserved_notin_ruleFields:
  "''ptype'' \<notin> fst ` set (ruleFields rule)"
  "''createdAt'' \<notin> fst ` set (ruleFields rule)"
  "''updatedAt'' \<notin> fst ` set (ruleFields rule)"
  using vkey_not_reserved unfolding ruleFields_keys by force+

lemma deletePolicyLine_closed:
  "deletePolicyLine pt rule = (''ptype'', BStr pt) # ruleFields rule"
  by (simp add: deletePolicyLine_def convertRuleToDocument_def convertLoop_ptype)

lemma updatePolicyLine_closed:
  "updatePolicyLine now pt rule
     = (''ptype'', BStr pt) # ruleFields rule @ [(''updatedAt'', BDate now)]"
  by (simp add: updatePolicyLine_def convertRuleToDocument_def convertLoop_ptype
      update_fresh reserved_notin_ruleFields)

lemma savePolicyLine_closed:
  "savePolicyLine now pt rule
     = (''ptype'', BStr pt) # ruleFields rule
         @ [(''createdAt'', BDate now), (''updatedAt'', BDate now)]"
  by (simp add: savePolicyLine_def convertRuleToDocument_def convertLoop_ptype
      update_fresh reserved_notin_ruleFields)

text \<open>
  C4. For every ptype and every field list, the document built by
  \<open>convertRuleToDocument\<close> is \<open>ptype\<close> followed by \<open>v0 .. v(n-1)\<close> bound to the fields in
  order, where fields at index 6 and beyond are ignored; with the option \<open>none\<close> (delete
  and match keys) nothing else is attached, with \<open>updatedOnly\<close> (updates) only
  \<open>updatedAt\<close>, set to the current instant, and with \<open>both\<close> (insertions) \<open>createdAt\<close>
  and \<open>updatedAt\<close>, set to the same current instant.
\<close>

theorem convertRuleToDocument_shape:
  "convertRuleToDocument now pt rule TsNone
     = (''ptype'', BStr pt) # map (\<lambda>i. (vkey i, BStr (rule ! i))) [0..<min (length rule) 6]
   \<and> convertRuleToDocument now pt rule UpdatedOnly
     = convertRuleToDocument now pt rule TsNone @ [(''updatedAt'', BDate now)]
   \<and> convertRuleToDocument now pt rule Both
     = convertRuleToDocument now pt rule TsNone
         @ [(''createdAt'', BDate now), (''updatedAt'', BDate now)]
   \<and> deletePolicyLine pt rule = convertRuleToDocument now pt rule TsNone
   \<and> updatePolicyLine now pt rule = convertRuleToDocument now pt rule UpdatedOnly
   \<and> savePolicyLine now pt rule = convertRuleToDocument now pt rule Both"
proof -
  have n: "convertRuleToDocument now pt rule TsNone = (''ptype'', BStr pt) # ruleFields rule"
    by (simp add: convertRuleToDocument_def convertLoop_ptype)
  have u: "convertRuleToDocument now pt rule UpdatedOnly
             = (''ptype'', BStr pt) # ruleFields rule @ [(''updatedAt'', BDate now)]"
    using updatePolicyLine_closed [of now pt rule] by (simp add: updatePolicyLine_def)
  have b: "convertRuleToDocument now pt rule Both
             = (''ptype'', BStr pt) # ruleFields rule
                 @ [(''createdAt'', BDate now), (''updatedAt'', BDate now)]"
    using savePolicyLine_closed [of now pt rule] by (simp add: savePolicyLine_def)
  have d: "deletePolicyLine pt rule = convertRuleToDocument now pt rule TsNone"
    by (simp add: deletePolicyLine_def convertRuleToDocument_def)
  show ?thesis
    using n u b d by (simp add: ruleFields_def updatePolicyLine_def savePolicyLine_def)
qed

theorem convertRuleToDocument_shape_witness:
  "convertRuleToDocument 7 ''p'' [''a'', ''b'', ''c'', ''d'', ''e'', ''f'', ''g'', ''h''] Both
     = [(''ptype'', BStr ''p''), (''v0'', BStr ''a''), (''v1'', BStr ''b''), (''v2'', BStr ''c''),
        (''v3'', BStr ''d''), (''v4'', BStr ''e''), (''v5'', BStr ''f''),
        (''createdAt'', BDate 7), (''updatedAt'', BDate 7)]"
  using convertRuleToDocument_shape
    [of 7 "''p''" "[''a'', ''b'', ''c'', ''d'', ''e'', ''f'', ''g'', ''h'']"]
  by (simp add: upt_rec vkey_def)

section \<open>The store and the calls of the adapter\<close>

lemma exec_ok:
  "faults s (length (calls s)) = None \<Longrightarrow> c \<noteq> InsertMany [] \<Longrightarrow>
   exec c s
     = (Inr (reply c (coll s)),
        s\<lparr>calls := calls s @ [c], coll := effect c (choice s (length (calls s))) (coll s)\<rparr>)"
  by (simp add: exec_def Let_def)

lemma getCollection_ok:
  "faults s (length (calls s)) = None \<Longrightarrow>
   getCollection a s = (Inr (), s\<lparr>calls := calls s @ [GetCollection]\<rparr>)"
  by (simp add: getCollection_def exec_ok discard_def andThen_def catch_def)

lemma onCollection_ok:
  "faults s = (\<lambda>k. None) \<Longrightarrow> c \<noteq> InsertMany [] \<Longrightarrow>
   onCollection a c s
     = (Inr (reply c (coll s)),
        s\<lparr>calls := calls s @ [GetCollection, c],
           coll := effect c (choice s (Suc (length (calls s)))) (coll s)\<rparr>)"
  by (simp add: onCollection_def getCollection_ok andThen_def exec_ok)

lemma filter_from_upt: "filter (\<lambda>i. m \<le> i) [0..<n] = [m..<n]"
  by (induction n) (auto simp: not_less_eq_eq)

lemma foldl_update_fresh:
  "distinct ks \<Longrightarrow> set ks \<inter> fst ` set acc = {} \<Longrightarrow>
   foldl (\<lambda>acc key. if P key then AList.update key v acc else acc) acc ks
     = acc @ map (\<lambda>k. (k, v)) (filter P ks)"
proof (induction ks arbitrary: acc)
  case Nil
  then show ?case by simp
next
  case (Cons k ks)
  then have fresh: "k \<notin> fst ` set acc" by auto
  show ?case
  proof (cases "P k")
    case True
    have "set ks \<inter> fst ` set (acc @ [(k, v)]) = {}"
      using Cons.prems by auto
    with Cons.IH [of "acc @ [(k, v)]"] Cons.prems True fresh show ?thesis
      by (simp add: update_fresh)
  next
    case False
    with Cons show ?thesis by simp
  qed
qed

lemma distinct_vkeys: "n \<le> 6 \<Longrightarrow> distinct (map vkey [0..<n])"
  by (auto simp: distinct_map inj_on_def vkey_inj)

lemma hasOwnProperty_iff: "hasOwnProperty d k \<longleftrightarrow> k \<in> fst ` set d"
  by (simp add: hasOwnProperty_def map_of_eq_None_iff)

lemma unsetFields_closed:
  "unsetFields (deletePolicyLine pt oldRule) (updatePolicyLine now pt newRule)
     = map (\<lambda>i. (vkey i, BStr [])) [min (length newRule) 6..<min (length oldRule) 6]"
proof -
  let ?n = "min (length oldRule) 6" and ?m = "min (length newRule) 6"
  let ?new = "updatePolicyLine now pt newRule"
  let ?P = "\<lambda>key. \<not> hasOwnProperty ?new key \<and> key \<noteq> ''createdAt'' \<and> key \<noteq> ''updatedAt''"
  have keys_old: "keys (deletePolicyLine pt oldRule) = ''ptype'' # map vkey [0..<?n]"
    by (simp add: keys_def deletePolicyLine_closed ruleFields_def comp_def)
  have P_ptype: "\<not> ?P ''ptype''"
    by (simp add: hasOwnProperty_iff updatePolicyLine_closed)
  have P_vkey: "?P (vkey i) \<longleftrightarrow> ?m \<le> i" if "i < 6" for i
  proof -
    have "vkey i \<in> fst ` set (ruleFields newRule) \<longleftrightarrow> i < ?m"
      using that by (auto simp: ruleFields_keys vkey_inj)
    with vkey_not_reserved [OF that] show ?thesis
      by (auto simp: hasOwnProperty_iff updatePolicyLine_closed)
  qed
  have "filter ?P (map vkey [0..<?n]) = map vkey (filter (\<lambda>i. ?m \<le> i) [0..<?n])"
    unfolding filter_map comp_def
    by (rule arg_cong [where f = "map vkey"], rule filter_cong) (auto simp: P_vkey)
  then have flt: "filter ?P (map vkey [0..<?n]) = map vkey [?m..<?n]"
    by (simp only: filter_from_upt)
  have "unsetFields (deletePolicyLine pt oldRule) ?new
      = foldl (\<lambda>acc key. if ?P key then AList.update key (BStr []) acc else acc) []
          (map vkey [0..<?n])"
    unfolding unsetFields_def keys_old using P_ptype by simp
  also have "\<dots> = map (\<lambda>k. (k, BStr [])) (filter ?P (map vkey [0..<?n]))"
    using foldl_update_fresh [of "map vkey [0..<?n]" "[]" ?P "BStr []"] distinct_vkeys [of ?n]
    by simp
  finally show ?thesis
    by (simp only: flt) (simp add: comp_def)
qed






lemma distinct_ruleFields: "distinct (map fst (ruleFields r))"
  using distinct_vkeys [of "min (length r) 6"] by (simp add: ruleFields_def comp_def)





lemma matches_iff: "matches q d \<longleftrightarrow> (\<forall>(k, v) \<in> set q. map_of d k = Some v)"
  by (simp add: matches_def list_all_iff)







lemmas run_defs =
  onCollection_def getCollection_def getDatabase_def exec_def andThen_def catch_def
  discard_def Let_def

lemmas line_defs =
  deletePolicyLine_closed updatePolicyLine_closed savePolicyLine_closed ruleFields_def
  upt_rec vkey_def

lemmas choice_defs = chosen_def changeOne_def removeOne_def

section \<open>Updating a rule\<close>



lemma updateCommand_closed:
  "updateCommand now pt oldRule newRule
     = UpdateOne ((''ptype'', BStr pt) # ruleFields oldRule)
         ((''ptype'', BStr pt) # ruleFields newRule @ [(''updatedAt'', BDate now)])
         (map (\<lambda>i. (vkey i, BStr [])) [min (length newRule) 6..<min (length oldRule) 6])"
  by (simp add: updateCommand_def Let_def unsetFields_closed)
     (simp add: deletePolicyLine_closed updatePolicyLine_closed)


lemma matches_own_key: "matches (deletePolicyLine pt rule) (savePolicyLine t pt rule)"
proof -
  have "map_of (savePolicyLine t pt rule) k = Some v"
    if "(k, v) \<in> set (ruleFields rule)" for k v
  proof -
    from that have "map_of (ruleFields rule) k = Some v"
      by (simp add: distinct_ruleFields)
    moreover from that have "k \<noteq> ''ptype''"
      using reserved_notin_ruleFields(1) [of rule] by force
    ultimately show ?thesis
      by (simp add: savePolicyLine_closed map_add_def)
  qed
  then show ?thesis
    by (auto simp: matches_iff deletePolicyLine_closed) (simp add: savePolicyLine_closed)
qed











text \<open>
  What the statement of the update leaves open. The key has no condition that further
  positional fields be absent, so the document of a longer rule matches it as well. With
  the rule \<open>(a, b, c)\<close> stored, the rule \<open>(a, b)\<close> added and then updated to \<open>(a)\<close>, in an
  environment where the server reaches the document of \<open>(a, b, c)\<close>, that document is
  rewritten and keeps its \<open>v2\<close>, and the document that was added keeps its \<open>v1\<close>.
\<close>

lemma updatePolicy_key_matches_longer_rule:
  "coll (snd (updatePolicy exampleAdapter 9 ''p'' ''p'' [''a'', ''b''] [''a'']
                (snd (addPolicy exampleAdapter 3 ''p'' ''p'' [''a'', ''b'']
                       \<lparr>coll = Some
                           [[(''ptype'', BStr ''p''), (''v0'', BStr ''a''), (''v1'', BStr ''b''),
                             (''v2'', BStr ''c''), (''createdAt'', BDate 1),
                             (''updatedAt'', BDate 1)]],
                         calls = [], faults = (\<lambda>k. None), choice = (\<lambda>k. 0)\<rparr>))))
     = Some [[(''ptype'', BStr ''p''), (''v0'', BStr ''a''), (''v2'', BStr ''c''),
              (''createdAt'', BDate 1), (''updatedAt'', BDate 9)],
             [(''ptype'', BStr ''p''), (''v0'', BStr ''a''), (''v1'', BStr ''b''),
              (''createdAt'', BDate 3), (''updatedAt'', BDate 3)]]"
  unfolding updatePolicy_def updateCommand_closed
  by (simp add: addPolicy_def run_defs line_defs matches_def applyUpdate_def choice_defs)





section \<open>Filtered removal\<close>

lemma filterLoop_closed:
  "i \<le> 6 \<Longrightarrow> fst ` set base \<inter> vkey ` {..<6} = {} \<Longrightarrow>
   filterLoop i fieldIndex fieldValues
       (base @ map (\<lambda>i. (vkey i, BStr (fieldValues ! nat (int i - fieldIndex))))
                (filter (inWindow fieldIndex fieldValues) [0..<i]))
     = base @ map (\<lambda>i. (vkey i, BStr (fieldValues ! nat (int i - fieldIndex))))
                (filter (inWindow fieldIndex fieldValues) [0..<6])"
proof (induction "6 - i" arbitrary: i)
  case 0
  then have "i = 6" by simp
  then show ?case
    by (subst filterLoop.simps) simp
next
  case (Suc n)
  then have i6: "i < 6" by simp
  let ?f = "\<lambda>i. (vkey i, BStr (fieldValues ! nat (int i - fieldIndex)))"
  let ?W = "inWindow fieldIndex fieldValues"
  let ?line = "base @ map ?f (filter ?W [0..<i])"
  have fresh: "vkey i \<notin> fst ` set ?line"
  proof
    assume "vkey i \<in> fst ` set ?line"
    then consider "vkey i \<in> fst ` set base" | j where "j < i" "vkey i = vkey j"
      by auto
    then show False
    proof cases
      case 1
      with Suc.prems(2) i6 show False by blast
    next
      case 2
      with i6 vkey_inj [of i j] show False by simp
    qed
  qed
  have step: "(if fieldIndex \<le> int i \<and> int i < fieldIndex + int (length fieldValues)
               then AList.update (vkey i) (BStr (fieldValues ! nat (int i - fieldIndex))) ?line
               else ?line)
              = base @ map ?f (filter ?W [0..<Suc i])"
    by (simp add: inWindow_def update_fresh [OF fresh])
  have "filterLoop i fieldIndex fieldValues ?line
      = filterLoop (Suc i) fieldIndex fieldValues (base @ map ?f (filter ?W [0..<Suc i]))"
    using i6 by (subst filterLoop.simps) (simp only: step if_True)
  also have "\<dots> = base @ map ?f (filter ?W [0..<6])"
    using Suc.hyps(1) [of "Suc i"] Suc.hyps(2) Suc.prems(2) i6 by simp
  finally show ?case .
qed

lemma removeFilteredLine_closed:
  "removeFilteredLine pt fieldIndex fieldValues
     = (''ptype'', BStr pt)
         # map (\<lambda>i. (vkey i, BStr (fieldValues ! nat (int i - fieldIndex))))
             (filter (inWindow fieldIndex fieldValues) [0..<6])"
proof -
  have "fst ` set [(''ptype'', BStr pt)] \<inter> vkey ` {..<6} = {}"
    by (auto dest!: vkey_not_reserved)
  from filterLoop_closed [OF _ this, of 0 fieldIndex fieldValues] show ?thesis
    by (simp add: removeFilteredLine_def)
qed

lemma matches_removeFilteredLine:
  "matches (removeFilteredLine pt fieldIndex fieldValues) d
     \<longleftrightarrow> windowSelects pt fieldIndex fieldValues d"
  by (auto simp: matches_iff removeFilteredLine_closed windowSelects_def list_all_iff)

lemma window_inside:
  assumes "0 \<le> fieldIndex" "fieldIndex + int (length fieldValues) \<le> 6"
  shows "filter (inWindow fieldIndex fieldValues) [0..<6]
           = [nat fieldIndex..<nat fieldIndex + length fieldValues]"
proof -
  have "filter (inWindow fieldIndex fieldValues) [0..<6]
          = filter (\<lambda>i. nat fieldIndex \<le> i \<and> i < nat fieldIndex + length fieldValues) [0..<6]"
    using assms by (intro filter_cong) (auto simp: inWindow_def)
  also have "\<dots> = [nat fieldIndex..<nat fieldIndex + length fieldValues]"
    using assms
    by (intro sorted_distinct_set_unique) (auto simp: sorted_filter[where f=id, simplified])
  finally show ?thesis .
qed

text \<open>
  C3 (as amended). \<open>removeFilteredPolicy\<close> builds the partial-match document of \<open>ptype\<close>
  and the fields \<open>v\<close>\<open>i\<close> for the positions \<open>i\<close> among \<open>0 .. 5\<close> that lie in the window
  \<open>offset \<le> i < offset + length values\<close>, each bound to the value given for it; values
  whose position is outside \<open>v0 .. v5\<close> are left out. When the whole window lies inside
  \<open>v0 .. v5\<close> these are exactly \<open>v[offset] .. v[offset+k]\<close>. It sends one \<open>deleteMany\<close>
  with that document, which deletes exactly the documents that the clipped window
  selects, leaves the others untouched and in order, and changes nothing when none is
  selected.
\<close>

theorem removeFilteredPolicy_window:
  assumes nofault: "faults s = (\<lambda>k. None)"
  shows "removeFilteredLine pt fieldIndex fieldValues
           = (''ptype'', BStr pt)
               # map (\<lambda>i. (vkey i, BStr (fieldValues ! nat (int i - fieldIndex))))
                   (filter (inWindow fieldIndex fieldValues) [0..<6])
    \<and> (0 \<le> fieldIndex \<and> fieldIndex + int (length fieldValues) \<le> 6 \<longrightarrow>
         removeFilteredLine pt fieldIndex fieldValues
           = (''ptype'', BStr pt)
               # map (\<lambda>j. (vkey (nat fieldIndex + j), BStr (fieldValues ! j)))
                   [0..<length fieldValues])
    \<and> removeFilteredPolicy a sec pt fieldIndex fieldValues s
         = (Inr (),
            s\<lparr>calls := calls s
                  @ [GetCollection, DeleteMany (removeFilteredLine pt fieldIndex fieldValues)],
               coll := map_option (filter (\<lambda>d. \<not> windowSelects pt fieldIndex fieldValues d))
                         (coll s)\<rparr>)
    \<and> (list_all (\<lambda>d. \<not> windowSelects pt fieldIndex fieldValues d) (contents (coll s)) \<longrightarrow>
         coll (snd (removeFilteredPolicy a sec pt fieldIndex fieldValues s)) = coll s)"
proof -
  have inside: "removeFilteredLine pt fieldIndex fieldValues
           = (''ptype'', BStr pt)
               # map (\<lambda>j. (vkey (nat fieldIndex + j), BStr (fieldValues ! j)))
                   [0..<length fieldValues]"
    if "0 \<le> fieldIndex" "fieldIndex + int (length fieldValues) \<le> 6"
  proof -
    have "map (\<lambda>i. (vkey i, BStr (fieldValues ! nat (int i - fieldIndex))))
            [nat fieldIndex..<nat fieldIndex + length fieldValues]
        = map (\<lambda>j. (vkey (nat fieldIndex + j), BStr (fieldValues ! j))) [0..<length fieldValues]"
      using that(1) by (intro nth_equalityI) (simp_all add: nat_diff_distrib')
    then show ?thesis
      by (simp add: removeFilteredLine_closed window_inside [OF that])
  qed
  have run: "removeFilteredPolicy a sec pt fieldIndex fieldValues s
         = (Inr (),
            s\<lparr>calls := calls s
                  @ [GetCollection, DeleteMany (removeFilteredLine pt fieldIndex fieldValues)],
               coll := map_option (filter (\<lambda>d. \<not> windowSelects pt fieldIndex fieldValues d))
                         (coll s)\<rparr>)"
    using nofault
    by (simp add: removeFilteredPolicy_def Let_def discard_def andThen_def onCollection_ok
        matches_removeFilteredLine)
  have noop: "coll (snd (removeFilteredPolicy a sec pt fieldIndex fieldValues s)) = coll s"
    if "list_all (\<lambda>d. \<not> windowSelects pt fieldIndex fieldValues d) (contents (coll s))"
    using that unfolding run by (cases "coll s") (simp_all add: list_all_iff)
  show ?thesis
    using inside run noop removeFilteredLine_closed [of pt fieldIndex fieldValues] by blast
qed

theorem removeFilteredPolicy_window_witness:
  "coll (snd (removeFilteredPolicy exampleAdapter ''p'' ''p'' 0 [''harry'']
          \<lparr>coll = Some
              [[(''ptype'', BStr ''p''), (''v0'', BStr ''harry''), (''v1'', BStr ''data8''),
                (''v2'', BStr ''read''), (''createdAt'', BDate 1), (''updatedAt'', BDate 1)],
               [(''ptype'', BStr ''p''), (''v0'', BStr ''harry''), (''v1'', BStr ''data9''),
                (''v2'', BStr ''write''), (''createdAt'', BDate 2), (''updatedAt'', BDate 2)],
               [(''ptype'', BStr ''p''), (''v0'', BStr ''ivy''), (''v1'', BStr ''data10''),
                (''v2'', BStr ''read''), (''createdAt'', BDate 3), (''updatedAt'', BDate 3)]],
            calls = [], faults = (\<lambda>k. None), choice = (\<lambda>k. 0)\<rparr>))
     = Some [[(''ptype'', BStr ''p''), (''v0'', BStr ''ivy''), (''v1'', BStr ''data10''),
              (''v2'', BStr ''read''), (''createdAt'', BDate 3), (''updatedAt'', BDate 3)]]"
proof -
  let ?s = "\<lparr>coll = Some
              [[(''ptype'', BStr ''p''), (''v0'', BStr ''harry''), (''v1'', BStr ''data8''),
                (''v2'', BStr ''read''), (''createdAt'', BDate 1), (''updatedAt'', BDate 1)],
               [(''ptype'', BStr ''p''), (''v0'', BStr ''harry''), (''v1'', BStr ''data9''),
                (''v2'', BStr ''write''), (''createdAt'', BDate 2), (''updatedAt'', BDate 2)],
               [(''ptype'', BStr ''p''), (''v0'', BStr ''ivy''), (''v1'', BStr ''data10''),
                (''v2'', BStr ''read''), (''createdAt'', BDate 3), (''updatedAt'', BDate 3)]],
            calls = [], faults = (\<lambda>k. None), choice = (\<lambda>k. 0)\<rparr>"
  have h: "faults ?s = (\<lambda>k. None)" by simp
  from removeFilteredPolicy_window [OF h, of "''p''" 0 "[''harry'']" exampleAdapter "''p''"]
  have "removeFilteredPolicy exampleAdapter ''p'' ''p'' 0 [''harry''] ?s
         = (Inr (),
            ?s\<lparr>calls := calls ?s @ [GetCollection, DeleteMany (removeFilteredLine ''p'' 0 [''harry''])],
               coll := map_option (filter (\<lambda>d. \<not> windowSelects ''p'' 0 [''harry''] d))
                         (coll ?s)\<rparr>)"
    by blast
  then show ?thesis
    by (simp add: windowSelects_def inWindow_def upt_rec vkey_def)
qed

text \<open>
  With the offset 5 and the two values \<open>a\<close> and \<open>b\<close> the second value has no position among
  \<open>v0 .. v5\<close>: the match document binds \<open>v5\<close> only, and a document with \<open>v5 = a\<close> is
  deleted although it has no field \<open>v6\<close> equal to \<open>b\<close>.
\<close>

theorem removeFilteredPolicy_beyond_v5_counterexample:
  "removeFilteredLine ''p'' 5 [''a'', ''b''] = [(''ptype'', BStr ''p''), (''v5'', BStr ''a'')]
   \<and> \<not> selectsAsStated ''p'' 5 [''a'', ''b'']
         [(''ptype'', BStr ''p''), (''v0'', BStr ''u''), (''v1'', BStr ''v''),
          (''v2'', BStr ''w''), (''v3'', BStr ''x''), (''v4'', BStr ''y''), (''v5'', BStr ''a''),
          (''createdAt'', BDate 1), (''updatedAt'', BDate 1)]
   \<and> coll (snd (removeFilteredPolicy exampleAdapter ''p'' ''p'' 5 [''a'', ''b'']
          \<lparr>coll = Some
              [[(''ptype'', BStr ''p''), (''v0'', BStr ''u''), (''v1'', BStr ''v''),
                (''v2'', BStr ''w''), (''v3'', BStr ''x''), (''v4'', BStr ''y''),
                (''v5'', BStr ''a''), (''createdAt'', BDate 1), (''updatedAt'', BDate 1)]],
            calls = [], faults = (\<lambda>k. None), choice = (\<lambda>k. 0)\<rparr>))
     = Some []"
proof -
  have line: "removeFilteredLine ''p'' 5 [''a'', ''b'']
                = [(''ptype'', BStr ''p''), (''v5'', BStr ''a'')]"
    by (simp add: removeFilteredLine_closed inWindow_def upt_rec vkey_def)
  show ?thesis
    unfolding removeFilteredPolicy_def line
    by (simp add: selectsAsStated_def run_defs matches_def upt_rec vkey_def)
qed

section \<open>Removing a batch\<close>

lemma startDeletes_ok:
  "\<forall>j<length lines. faults s (length (calls s) + 2 * j) = None \<Longrightarrow>
   startDeletes a lines s
     = (None,
        map (\<lambda>j. (length (calls s) + 2 * j + 1, lines ! j)) [0..<length lines],
        s\<lparr>calls := calls s @ concat (map (\<lambda>l. [GetCollection, DeleteOne l]) lines)\<rparr>)"
proof (induction lines arbitrary: s)
  case Nil
  then show ?case by simp
next
  case (Cons line lines)
  let ?s2 = "s\<lparr>calls := calls s @ [GetCollection, DeleteOne line]\<rparr>"
  from Cons.prems have f0: "faults s (length (calls s)) = None"
    by force
  have "\<forall>j<length lines. faults ?s2 (length (calls ?s2) + 2 * j) = None"
  proof (intro allI impI)
    fix j assume "j < length lines"
    then have "Suc j < length (line # lines)" by simp
    with Cons.prems have "faults s (length (calls s) + 2 * Suc j) = None" by blast
    then show "faults ?s2 (length (calls ?s2) + 2 * j) = None" by simp
  qed
  from Cons.IH [OF this]
  have ih: "startDeletes a lines ?s2
     = (None,
        map (\<lambda>j. (length (calls s) + 2 * Suc j + 1, lines ! j)) [0..<length lines],
        s\<lparr>calls := calls s @ concat (map (\<lambda>l. [GetCollection, DeleteOne l]) (line # lines))\<rparr>)"
    by simp
  have idx: "map (\<lambda>j. (length (calls s) + 2 * j + 1, (line # lines) ! j)) [0..<length (line # lines)]
       = (Suc (length (calls s)), line)
           # map (\<lambda>j. (length (calls s) + 2 * Suc j + 1, lines ! j)) [0..<length lines]"
    by (simp add: upt_conv_Cons map_Suc_upt [symmetric] del: upt_Suc)
  show ?case
    unfolding idx
    by (simp add: getCollection_ok [OF f0] ih)
qed

lemma settle_env: "faults (snd (settle p s)) = faults s" "choice (snd (settle p s)) = choice s"
  "calls (snd (settle p s)) = calls s"
  by (simp_all add: settle_def split: option.splits)

lemma settleAll_env:
  "faults s = F \<Longrightarrow> choice s = C \<Longrightarrow>
   settleAll ps s
     = (map (\<lambda>p. map_option DriverError (F (fst p))) ps,
        s\<lparr>coll := fold (\<lambda>p c. if F (fst p) = None
                                then effect (DeleteOne (snd p)) (C (fst p)) c else c)
                    ps (coll s)\<rparr>)"
proof (induction ps arbitrary: s)
  case Nil
  then show ?case by simp
next
  case (Cons p ps)
  show ?case
  proof (cases "F (fst p)")
    case None
    let ?s1 = "s\<lparr>coll := effect (DeleteOne (snd p)) (C (fst p)) (coll s)\<rparr>"
    have s1: "settle p s = (None, ?s1)"
      using None Cons.prems by (simp add: settle_def)
    have "faults ?s1 = F" "choice ?s1 = C"
      using Cons.prems by simp_all
    from Cons.IH [OF this] None show ?thesis
      by (simp add: s1)
  next
    case (Some m)
    have s1: "settle p s = (Some (DriverError m), s)"
      using Some Cons.prems by (simp add: settle_def)
    from Cons.IH [OF Cons.prems] Some show ?thesis
      by (simp add: s1)
  qed
qed

lemma settleAll_eq:
  "settleAll ps s
     = (map (\<lambda>p. map_option DriverError (faults s (fst p))) ps,
        s\<lparr>coll := fold (\<lambda>p c. if faults s (fst p) = None
                                then effect (DeleteOne (snd p)) (choice s (fst p)) c else c)
                    ps (coll s)\<rparr>)"
  by (rule settleAll_env) simp_all

lemma firstRejection_None: "firstRejection rs = None \<longleftrightarrow> list_all (\<lambda>r. r = None) rs"
  by (induction rs rule: firstRejection.induct) auto

lemma firstRejection_at:
  "i < length rs \<Longrightarrow> rs ! i = Some e \<Longrightarrow> \<forall>j<i. rs ! j = None \<Longrightarrow>
   firstRejection rs = Some (i, e)"
proof (induction rs arbitrary: i rule: firstRejection.induct)
  case 1
  then show ?case by simp
next
  case (2 rs)
  show ?case
  proof (cases i)
    case 0
    with 2 show ?thesis by simp
  next
    case (Suc i')
    have "firstRejection rs = Some (i', e)"
    proof (rule "2.IH")
      show "i' < length rs" using "2.prems"(1) Suc by simp
      show "rs ! i' = Some e" using "2.prems"(2) Suc by simp
      show "\<forall>j<i'. rs ! j = None"
      proof (intro allI impI)
        fix j assume "j < i'"
        then have "Suc j < i" using Suc by simp
        with "2.prems"(3) have "(None # rs) ! Suc j = None" by blast
        then show "rs ! j = None" by simp
      qed
    qed
    with Suc show ?thesis by simp
  qed
next
  case (3 e' rs)
  show ?case
  proof (cases i)
    case 0
    with 3 show ?thesis by simp
  next
    case (Suc i')
    with "3.prems"(3) have "(Some e' # rs) ! 0 = None" by blast
    then show ?thesis by simp
  qed
qed

lemma removePolicies_eq:
  assumes handles: "\<forall>j<length rules. faults s (length (calls s) + 2 * j) = None"
    and dist: "distinct order" and perm: "set order = {0..<length rules}"
  shows "removePolicies a sec pt rules order s
     = (promiseAll (map (\<lambda>j. map_option DriverError (faults s (length (calls s) + 2 * j + 1))) order),
        s\<lparr>calls := calls s
                 @ concat (map (\<lambda>r. [GetCollection, DeleteOne (deletePolicyLine pt r)]) rules),
           coll := fold (\<lambda>j c. if faults s (length (calls s) + 2 * j + 1) = None
                                then effect (DeleteOne (deletePolicyLine pt (rules ! j)))
                                       (choice s (length (calls s) + 2 * j + 1)) c
                                else c)
                     order (coll s)\<rparr>)"
proof -
  let ?L = "length (calls s)"
  let ?lines = "map (deletePolicyLine pt) rules"
  let ?pending = "map (\<lambda>j. (?L + 2 * j + 1, ?lines ! j)) [0..<length ?lines]"
  let ?s1 = "s\<lparr>calls := calls s @ concat (map (\<lambda>l. [GetCollection, DeleteOne l]) ?lines)\<rparr>"
  have h: "\<forall>j<length ?lines. faults s (?L + 2 * j) = None"
    using handles by simp
  have start: "startDeletes a ?lines s = (None, ?pending, ?s1)"
    by (rule startDeletes_ok [OF h])
  have inrange: "i < length rules" if "i \<in> set order" for i
    using that perm by simp
  have keep: "filter (\<lambda>i. i < length ?pending) order = order"
    using inrange by (simp add: filter_id_conv)
  have sel: "map (\<lambda>i. ?pending ! i) order
       = map (\<lambda>j. (?L + 2 * j + 1, deletePolicyLine pt (rules ! j))) order"
    by (rule map_cong) (simp_all add: inrange)
  have calls1: "calls ?s1
       = calls s @ concat (map (\<lambda>r. [GetCollection, DeleteOne (deletePolicyLine pt r)]) rules)"
    by (simp add: comp_def)
  have settled: "settleAll (map (\<lambda>j. (?L + 2 * j + 1, deletePolicyLine pt (rules ! j))) order) ?s1
       = (map (\<lambda>j. map_option DriverError (faults s (?L + 2 * j + 1))) order,
          ?s1\<lparr>coll := fold (\<lambda>j c. if faults s (?L + 2 * j + 1) = None
                                then effect (DeleteOne (deletePolicyLine pt (rules ! j)))
                                       (choice s (?L + 2 * j + 1)) c
                                else c)
                     order (coll s)\<rparr>)"
    using settleAll_env [of ?s1 "faults s" "choice s"
        "map (\<lambda>j. (?L + 2 * j + 1, deletePolicyLine pt (rules ! j))) order"]
    by (simp add: comp_def fold_map cong: if_cong)
  show ?thesis
    unfolding removePolicies_def Let_def start prod.case keep sel settled
    by (simp add: comp_def)
qed

lemma promiseAll_all_fulfilled:
  "list_all (\<lambda>r. r = None) rs \<Longrightarrow> promiseAll rs = (Inr (), length rs)"
  using firstRejection_None [of rs] by (simp add: promiseAll_def)

lemma promiseAll_first_rejection:
  "i < length rs \<Longrightarrow> rs ! i = Some e \<Longrightarrow> \<forall>j<i. rs ! j = None \<Longrightarrow>
   promiseAll rs = (Inl e, Suc i)"
  by (simp add: promiseAll_def firstRejection_at)

lemma promiseAll_some_rejection:
  "\<not> list_all (\<lambda>r. r = None) rs \<Longrightarrow> \<exists>e k. promiseAll rs = (Inl e, k)"
proof -
  assume "\<not> list_all (\<lambda>r. r = None) rs"
  then have "firstRejection rs \<noteq> None"
    by (simp add: firstRejection_None)
  then obtain i e where "firstRejection rs = Some (i, e)"
    by (cases "firstRejection rs") auto
  then show ?thesis by (simp add: promiseAll_def)
qed

text \<open>
  C8 (as amended). Where the handle look-ups do not fail, \<open>removePolicies\<close> starts one
  \<open>deleteOne\<close> for each rule, and it fixes no order among the deletions: whatever the order
  in which they settle, every deletion that does not fail takes effect, in that order, and
  a deletion that fails changes nothing. When no deletion fails the method completes
  once all of them have settled. When one fails the whole batch fails, and it fails as soon
  as the first failing deletion has settled, with that deletion's error, without waiting
  for the deletions still to settle. The batch is not atomic: the deletions that succeed,
  before the failure or after it, remain committed.
\<close>

theorem removePolicies_batch:
  assumes handles: "\<forall>j<length rules. faults s (length (calls s) + 2 * j) = None"
    and dist: "distinct order" and perm: "set order = {0..<length rules}"
  shows "snd (removePolicies a sec pt rules order s)
       = s\<lparr>calls := calls s
                 @ concat (map (\<lambda>r. [GetCollection, DeleteOne (deletePolicyLine pt r)]) rules),
           coll := fold (\<lambda>j c. if faults s (length (calls s) + 2 * j + 1) = None
                                then effect (DeleteOne (deletePolicyLine pt (rules ! j)))
                                       (choice s (length (calls s) + 2 * j + 1)) c
                                else c)
                     order (coll s)\<rparr>
   \<and> ((\<forall>j<length rules. faults s (length (calls s) + 2 * j + 1) = None) \<longrightarrow>
        fst (removePolicies a sec pt rules order s) = (Inr (), length rules))
   \<and> ((\<exists>j<length rules. faults s (length (calls s) + 2 * j + 1) \<noteq> None) \<longrightarrow>
        (\<exists>e k. fst (removePolicies a sec pt rules order s) = (Inl e, k)))
   \<and> (\<forall>i m. i < length rules
          \<and> faults s (length (calls s) + 2 * (order ! i) + 1) = Some m
          \<and> (\<forall>i'<i. faults s (length (calls s) + 2 * (order ! i') + 1) = None) \<longrightarrow>
          fst (removePolicies a sec pt rules order s) = (Inl (DriverError m), Suc i))"
proof -
  let ?L = "length (calls s)"
  let ?rs = "map (\<lambda>j. map_option DriverError (faults s (?L + 2 * j + 1))) order"
  note eq = removePolicies_eq [OF handles dist perm, of a sec pt]
  have len: "length order = length rules"
    using distinct_card [OF dist] perm by simp
  have 1: "snd (removePolicies a sec pt rules order s)
       = s\<lparr>calls := calls s
                 @ concat (map (\<lambda>r. [GetCollection, DeleteOne (deletePolicyLine pt r)]) rules),
           coll := fold (\<lambda>j c. if faults s (?L + 2 * j + 1) = None
                                then effect (DeleteOne (deletePolicyLine pt (rules ! j)))
                                       (choice s (?L + 2 * j + 1)) c
                                else c)
                     order (coll s)\<rparr>"
    unfolding eq by simp
  have 2: "fst (removePolicies a sec pt rules order s) = (Inr (), length rules)"
    if "\<forall>j<length rules. faults s (?L + 2 * j + 1) = None"
  proof -
    have "list_all (\<lambda>r. r = None) ?rs"
      using that perm by (simp add: list_all_iff)
    from promiseAll_all_fulfilled [OF this] show ?thesis
      unfolding eq by (simp add: len)
  qed
  have 3: "\<exists>e k. fst (removePolicies a sec pt rules order s) = (Inl e, k)"
    if "\<exists>j<length rules. faults s (?L + 2 * j + 1) \<noteq> None"
  proof -
    from that obtain j where j: "j < length rules" "faults s (?L + 2 * j + 1) \<noteq> None"
      by blast
    then have "j \<in> set order" using perm by simp
    with j(2) have "\<not> list_all (\<lambda>r. r = None) ?rs"
      by (auto simp: list_all_iff)
    from promiseAll_some_rejection [OF this] show ?thesis
      unfolding eq by simp
  qed
  have 4: "fst (removePolicies a sec pt rules order s) = (Inl (DriverError m), Suc i)"
    if "i < length rules" "faults s (?L + 2 * (order ! i) + 1) = Some m"
      "\<forall>i'<i. faults s (?L + 2 * (order ! i') + 1) = None" for i m
  proof -
    have a: "i < length ?rs" using that(1) len by simp
    have b: "?rs ! i = Some (DriverError m)"
      using that(1,2) len by simp
    have c: "\<forall>j<i. ?rs ! j = None"
    proof (intro allI impI)
      fix j assume "j < i"
      with that(1,3) len show "?rs ! j = None" by simp
    qed
    from promiseAll_first_rejection [OF a b c] show ?thesis
      unfolding eq by simp
  qed
  from 1 2 3 4 show ?thesis by blast
qed

theorem removePolicies_batch_witness:
  "removePolicies exampleAdapter ''p'' ''p'' threeRules [2, 0, 1]
     \<lparr>coll = Some fourDocuments, calls = [], faults = (\<lambda>k. None), choice = (\<lambda>k. 0)\<rparr>
   = ((Inr (), 3),
      \<lparr>coll = Some
          [[(''ptype'', BStr ''p''), (''v0'', BStr ''dave''), (''v1'', BStr ''data4''),
            (''v2'', BStr ''read''), (''createdAt'', BDate 4), (''updatedAt'', BDate 4)]],
       calls =
         [GetCollection,
          DeleteOne [(''ptype'', BStr ''p''), (''v0'', BStr ''alice''), (''v1'', BStr ''data1''),
                     (''v2'', BStr ''read'')],
          GetCollection,
          DeleteOne [(''ptype'', BStr ''p''), (''v0'', BStr ''bob''), (''v1'', BStr ''data2''),
                     (''v2'', BStr ''write'')],
          GetCollection,
          DeleteOne [(''ptype'', BStr ''p''), (''v0'', BStr ''carol''), (''v1'', BStr ''data3''),
                     (''v2'', BStr ''read'')]],
       faults = (\<lambda>k. None), choice = (\<lambda>k. 0)\<rparr>)
   \<and> fst (removePolicies exampleAdapter ''p'' ''p'' threeRules [1, 0, 2]
            \<lparr>coll = Some fourDocuments, calls = [],
             faults = (\<lambda>k. if k = 3 then Some ''connection lost'' else None),
             choice = (\<lambda>k. 0)\<rparr>)
     = (Inl (DriverError ''connection lost''), 1)"
proof -
  let ?s = "\<lparr>coll = Some fourDocuments, calls = [], faults = (\<lambda>k. None), choice = (\<lambda>k. 0)\<rparr>"
  have h1: "\<forall>j<length threeRules. faults ?s (length (calls ?s) + 2 * j) = None"
    by simp
  have h2: "distinct [2, 0, 1::nat]"
    by simp
  have h3: "set [2, 0, 1::nat] = {0..<length threeRules}"
    by (auto simp: threeRules_def)
  have h4: "\<forall>j<length threeRules. faults ?s (length (calls ?s) + 2 * j + 1) = None"
    by simp
  note inst = removePolicies_batch [OF h1 h2 h3, of exampleAdapter "''p''" "''p''"]
  from inst h4 have res: "fst (removePolicies exampleAdapter ''p'' ''p'' threeRules [2, 0, 1] ?s)
      = (Inr (), 3)"
    by (simp add: threeRules_def)
  from inst have "snd (removePolicies exampleAdapter ''p'' ''p'' threeRules [2, 0, 1] ?s)
      = ?s\<lparr>calls := calls ?s
                 @ concat (map (\<lambda>r. [GetCollection, DeleteOne (deletePolicyLine ''p'' r)]) threeRules),
            coll := fold (\<lambda>j c. if faults ?s (length (calls ?s) + 2 * j + 1) = None
                                then effect (DeleteOne (deletePolicyLine ''p'' (threeRules ! j)))
                                       (choice ?s (length (calls ?s) + 2 * j + 1)) c
                                else c)
                     [2, 0, 1] (coll ?s)\<rparr>"
    by (rule conjunct1)
  then have st: "snd (removePolicies exampleAdapter ''p'' ''p'' threeRules [2, 0, 1] ?s)
      = \<lparr>coll = Some
          [[(''ptype'', BStr ''p''), (''v0'', BStr ''dave''), (''v1'', BStr ''data4''),
            (''v2'', BStr ''read''), (''createdAt'', BDate 4), (''updatedAt'', BDate 4)]],
       calls =
         [GetCollection,
          DeleteOne [(''ptype'', BStr ''p''), (''v0'', BStr ''alice''), (''v1'', BStr ''data1''),
                     (''v2'', BStr ''read'')],
          GetCollection,
          DeleteOne [(''ptype'', BStr ''p''), (''v0'', BStr ''bob''), (''v1'', BStr ''data2''),
                     (''v2'', BStr ''write'')],
          GetCollection,
          DeleteOne [(''ptype'', BStr ''p''), (''v0'', BStr ''carol''), (''v1'', BStr ''data3''),
                     (''v2'', BStr ''read'')]],
       faults = (\<lambda>k. None), choice = (\<lambda>k. 0)\<rparr>"
    by (simp add: threeRules_def fourDocuments_def line_defs matches_def choice_defs)
  let ?f = "\<lparr>coll = Some fourDocuments, calls = [],
             faults = (\<lambda>k. if k = 3 then Some ''connection lost'' else None),
             choice = (\<lambda>k. 0)\<rparr>"
  have f1: "\<forall>j<length threeRules. faults ?f (length (calls ?f) + 2 * j) = None"
    by (simp, presburger)
  have f2: "distinct [1, 0, 2::nat]"
    by simp
  have f3: "set [1, 0, 2::nat] = {0..<length threeRules}"
    by (auto simp: threeRules_def)
  have f4: "0 < length threeRules
      \<and> faults ?f (length (calls ?f) + 2 * ([1, 0, 2] ! 0) + 1) = Some ''connection lost''
      \<and> (\<forall>i'<0. faults ?f (length (calls ?f) + 2 * ([1, 0, 2] ! i') + 1) = None)"
    by (simp add: threeRules_def)
  from removePolicies_batch [OF f1 f2 f3, of exampleAdapter "''p''" "''p''",
      THEN conjunct2, THEN conjunct2, THEN conjunct2, rule_format, OF f4]
  have rej: "fst (removePolicies exampleAdapter ''p'' ''p'' threeRules [1, 0, 2] ?f)
     = (Inl (DriverError ''connection lost''), 1)"
    by simp
  from res st rej show ?thesis
    by (simp add: prod_eq_iff)
qed

text \<open>
  The method does not always complete only once every deletion has settled. Of three
  deletions, the one that settles first fails: the batch has failed when one deletion has
  settled, and the two others take effect afterwards.
\<close>

theorem removePolicies_rejects_early_counterexample:
  "removePolicies exampleAdapter ''p'' ''p'' threeRules [1, 0, 2]
     \<lparr>coll = Some fourDocuments, calls = [],
      faults = (\<lambda>k. if k = 3 then Some ''connection lost'' else None), choice = (\<lambda>k. 0)\<rparr>
   = ((Inl (DriverError ''connection lost''), 1),
      \<lparr>coll = Some
          [[(''ptype'', BStr ''p''), (''v0'', BStr ''bob''), (''v1'', BStr ''data2''),
            (''v2'', BStr ''write''), (''createdAt'', BDate 2), (''updatedAt'', BDate 2)],
           [(''ptype'', BStr ''p''), (''v0'', BStr ''dave''), (''v1'', BStr ''data4''),
            (''v2'', BStr ''read''), (''createdAt'', BDate 4), (''updatedAt'', BDate 4)]],
       calls =
         [GetCollection,
          DeleteOne [(''ptype'', BStr ''p''), (''v0'', BStr ''alice''), (''v1'', BStr ''data1''),
                     (''v2'', BStr ''read'')],
          GetCollection,
          DeleteOne [(''ptype'', BStr ''p''), (''v0'', BStr ''bob''), (''v1'', BStr ''data2''),
                     (''v2'', BStr ''write'')],
          GetCollection,
          DeleteOne [(''ptype'', BStr ''p''), (''v0'', BStr ''carol''), (''v1'', BStr ''data3''),
                     (''v2'', BStr ''read'')]],
       faults = (\<lambda>k. if k = 3 then Some ''connection lost'' else None), choice = (\<lambda>k. 0)\<rparr>)"
proof -
  let ?s = "\<lparr>coll = Some fourDocuments, calls = [],
      faults = (\<lambda>k. if k = 3 then Some ''connection lost'' else None), choice = (\<lambda>k. 0)\<rparr>"
  have h1: "\<forall>j<length threeRules. faults ?s (length (calls ?s) + 2 * j) = None"
    by (simp, presburger)
  have h2: "distinct [1, 0, 2::nat]"
    by simp
  have h3: "set [1, 0, 2::nat] = {0..<length threeRules}"
    by (auto simp: threeRules_def)
  show ?thesis
    unfolding removePolicies_eq [OF h1 h2 h3]
    by (simp add: threeRules_def fourDocuments_def line_defs matches_def choice_defs
        promiseAll_def)
qed

section \<open>Saving the model\<close>

lemma getDatabase_ok:
  "faults s (length (calls s)) = None \<Longrightarrow>
   getDatabase a s = (Inr (), s\<lparr>calls := calls s @ [GetDatabase]\<rparr>)"
  by (simp add: getDatabase_def exec_ok discard_def andThen_def catch_def)

lemma matches_empty: "matches [] d"
  by (simp add: matches_def)

lemma clearCollection_ok:
  assumes "faults s = (\<lambda>k. None)"
  shows "clearCollection a s
     = (Inr (),
        s\<lparr>calls := calls s @ [GetDatabase, ListCollections (collectionName a)]
                   @ (if coll s = None then []
                      else [GetCollection,
                            if dropCollectionOnManualSave a then Drop else DeleteMany []]),
           coll := (if dropCollectionOnManualSave a then None
                    else map_option (\<lambda>ds. []) (coll s))\<rparr>)"
proof (cases "coll s")
  case None
  with assms show ?thesis
    by (simp add: clearCollection_def getDatabase_ok exec_ok andThen_def catch_def)
next
  case (Some ds)
  with assms show ?thesis
    by (simp add: clearCollection_def getDatabase_ok exec_ok onCollection_ok andThen_def
        catch_def discard_def matches_empty)
qed

lemma extractPolicyRules_eq:
  "extractPolicyRules clk i model key
     = map (\<lambda>(j, (pt, rule)). savePolicyLine (clk j) pt rule)
         (List.enumerate i (modelRules model key))"
  by (simp add: extractPolicyRules_def modelRules_def split: option.splits)

lemma getAllPolicyRules_eq:
  "getAllPolicyRules clk model
     = map (\<lambda>(j, (pt, rule)). savePolicyLine (clk j) pt rule)
         (List.enumerate 0 (modelRules model ''p'' @ modelRules model ''g''))"
  by (simp add: getAllPolicyRules_def Let_def extractPolicyRules_eq enumerate_append_eq)

lemma savePolicyLine_stamps:
  "map_of (savePolicyLine t pt rule) ''createdAt'' = Some (BDate t)"
  "map_of (savePolicyLine t pt rule) ''updatedAt'' = Some (BDate t)"
proof -
  have "map_of (ruleFields rule) ''createdAt'' = None" "map_of (ruleFields rule) ''updatedAt'' = None"
    using reserved_notin_ruleFields [of rule] by (simp_all add: map_of_eq_None_iff)
  then show "map_of (savePolicyLine t pt rule) ''createdAt'' = Some (BDate t)"
    "map_of (savePolicyLine t pt rule) ''updatedAt'' = Some (BDate t)"
    by (simp_all add: savePolicyLine_closed map_add_def)
qed

lemma getAllPolicyRules_stamped:
  "list_all (\<lambda>d. map_of d ''createdAt'' = map_of d ''updatedAt'' \<and> map_of d ''createdAt'' \<noteq> None)
     (getAllPolicyRules clk model)"
  by (auto simp: getAllPolicyRules_eq list_all_iff savePolicyLine_stamps)

text \<open>
  C5. Where the environment does not fail, \<open>savePolicy\<close> first clears the collection:
  when the collection exists it sends \<open>drop\<close> if the adapter was constructed with the
  drop-on-save flag and \<open>deleteMany({})\<close> otherwise (when there is no collection there is
  nothing to clear and nothing is sent). It then sends one \<open>insertMany\<close> with the
  documents of all the rules of the model, those under \<open>p\<close> before those under \<open>g\<close>,
  each stamped with \<open>createdAt\<close> and \<open>updatedAt\<close> equal to the clock reading taken for
  it (for a model without rules nothing is sent). The collection then holds exactly
  these documents, and the result is \<open>true\<close>.
\<close>

theorem savePolicy_clears_then_inserts:
  assumes "faults s = (\<lambda>k. None)"
  shows "savePolicy a clk model s
     = (Inr True,
        s\<lparr>calls := calls s @ [GetDatabase, ListCollections (collectionName a)]
                   @ (if coll s = None then []
                      else [GetCollection,
                            if dropCollectionOnManualSave a then Drop else DeleteMany []])
                   @ (if getAllPolicyRules clk model = [] then []
                      else [GetCollection, InsertMany (getAllPolicyRules clk model)]),
           coll := (if getAllPolicyRules clk model = []
                    then (if dropCollectionOnManualSave a then None
                          else map_option (\<lambda>ds. []) (coll s))
                    else Some (getAllPolicyRules clk model))\<rparr>)
   \<and> getAllPolicyRules clk model
       = map (\<lambda>(j, (pt, rule)). savePolicyLine (clk j) pt rule)
           (List.enumerate 0 (modelRules model ''p'' @ modelRules model ''g''))
   \<and> list_all (\<lambda>d. map_of d ''createdAt'' = map_of d ''updatedAt''
                    \<and> map_of d ''createdAt'' \<noteq> None)
        (getAllPolicyRules clk model)"
proof -
  let ?docs = "getAllPolicyRules clk model"
  let ?s1 = "snd (clearCollection a s)"
  have cleared: "clearCollection a s = (Inr (), ?s1)"
    and f1: "faults ?s1 = (\<lambda>k. None)"
    and c1: "contents (coll ?s1) = []"
    using assms by (cases "coll s"; simp add: clearCollection_ok)+
  have run: "savePolicy a clk model s
      = (if ?docs = [] then (Inr True, ?s1)
         else (Inr True, ?s1\<lparr>calls := calls ?s1 @ [GetCollection, InsertMany ?docs],
                               coll := Some ?docs\<rparr>))"
    unfolding savePolicy_def Let_def
    by (subst cleared) (simp add: andThen_def onCollection_ok [OF f1] c1)
  have "savePolicy a clk model s
     = (Inr True,
        s\<lparr>calls := calls s @ [GetDatabase, ListCollections (collectionName a)]
                   @ (if coll s = None then []
                      else [GetCollection,
                            if dropCollectionOnManualSave a then Drop else DeleteMany []])
                   @ (if ?docs = [] then [] else [GetCollection, InsertMany ?docs]),
           coll := (if ?docs = []
                    then (if dropCollectionOnManualSave a then None
                          else map_option (\<lambda>ds. []) (coll s))
                    else Some ?docs)\<rparr>)"
    unfolding run using assms by (simp add: clearCollection_ok)
  with getAllPolicyRules_eq [of clk model] getAllPolicyRules_stamped [of clk model]
  show ?thesis by blast
qed

theorem savePolicy_clears_then_inserts_witness:
  "savePolicy (exampleAdapter\<lparr>dropCollectionOnManualSave := True\<rparr>) (\<lambda>j. 100 + j) exampleModel
     \<lparr>coll = Some [[(''ptype'', BStr ''p''), (''v0'', BStr ''old''),
                    (''createdAt'', BDate 1), (''updatedAt'', BDate 1)]],
      calls = [], faults = (\<lambda>k. None), choice = (\<lambda>k. 0)\<rparr>
   = (Inr True,
      \<lparr>coll = Some
          [[(''ptype'', BStr ''p''), (''v0'', BStr ''frank''), (''v1'', BStr ''data6''),
            (''v2'', BStr ''read''), (''createdAt'', BDate 100), (''updatedAt'', BDate 100)],
           [(''ptype'', BStr ''p''), (''v0'', BStr ''grace''), (''v1'', BStr ''data7''),
            (''v2'', BStr ''write''), (''createdAt'', BDate 101), (''updatedAt'', BDate 101)],
           [(''ptype'', BStr ''g''), (''v0'', BStr ''frank''), (''v1'', BStr ''admin''),
            (''createdAt'', BDate 102), (''updatedAt'', BDate 102)]],
       calls =
         [GetDatabase, ListCollections ''policies'', GetCollection, Drop, GetCollection,
          InsertMany
            [[(''ptype'', BStr ''p''), (''v0'', BStr ''frank''), (''v1'', BStr ''data6''),
              (''v2'', BStr ''read''), (''createdAt'', BDate 100), (''updatedAt'', BDate 100)],
             [(''ptype'', BStr ''p''), (''v0'', BStr ''grace''), (''v1'', BStr ''data7''),
              (''v2'', BStr ''write''), (''createdAt'', BDate 101), (''updatedAt'', BDate 101)],
             [(''ptype'', BStr ''g''), (''v0'', BStr ''frank''), (''v1'', BStr ''admin''),
              (''createdAt'', BDate 102), (''updatedAt'', BDate 102)]]],
       faults = (\<lambda>k. None), choice = (\<lambda>k. 0)\<rparr>)"
proof -
  let ?s = "\<lparr>coll = Some [[(''ptype'', BStr ''p''), (''v0'', BStr ''old''),
                    (''createdAt'', BDate 1), (''updatedAt'', BDate 1)]],
      calls = [], faults = (\<lambda>k. None), choice = (\<lambda>k. 0)\<rparr>"
  have h: "faults ?s = (\<lambda>k. None)" by simp
  have docs: "getAllPolicyRules (\<lambda>j. 100 + j) exampleModel
     = [[(''ptype'', BStr ''p''), (''v0'', BStr ''frank''), (''v1'', BStr ''data6''),
            (''v2'', BStr ''read''), (''createdAt'', BDate 100), (''updatedAt'', BDate 100)],
           [(''ptype'', BStr ''p''), (''v0'', BStr ''grace''), (''v1'', BStr ''data7''),
            (''v2'', BStr ''write''), (''createdAt'', BDate 101), (''updatedAt'', BDate 101)],
           [(''ptype'', BStr ''g''), (''v0'', BStr ''frank''), (''v1'', BStr ''admin''),
            (''createdAt'', BDate 102), (''updatedAt'', BDate 102)]]"
    by (simp add: getAllPolicyRules_def extractPolicyRules_def exampleModel_def Let_def line_defs)
  from savePolicy_clears_then_inserts
    [OF h, of "exampleAdapter\<lparr>dropCollectionOnManualSave := True\<rparr>" "\<lambda>j. 100 + j" exampleModel]
  show ?thesis
    unfolding docs by (simp add: exampleAdapter_def)
qed

section \<open>Loading\<close>

lemma six_fields:
  "[field d ''v0'', field d ''v1'', field d ''v2'', field d ''v3'', field d ''v4'', field d ''v5'']
     = map (\<lambda>i. field d (vkey i)) [0..<6]"
  by (simp add: upt_rec vkey_def)

lemma filter_truthy:
  "filter truthy fs
     = map Some (concat (map (\<lambda>f. case f of None \<Rightarrow> [] | Some x \<Rightarrow> if x = [] then [] else [x]) fs))"
  by (induction fs) (auto split: option.splits)

lemma join_Some: "join sep (map Some xs) = joinWith sep xs"
  by (induction sep xs rule: joinWith.induct) simp_all

lemma loadPolicyLine_result_eq:
  "loadPolicyLine_result d
     = concatString (field d ''ptype'') @ '', '' @ joinWith '', '' (presentFields d)"
  unfolding loadPolicyLine_result_def six_fields filter_truthy join_Some presentFields_def
  by (simp add: comp_def)

text \<open>
  C10. The line built from a stored document is its \<open>ptype\<close>, then \<open>", "\<close>, then the fields
  among \<open>v0 .. v5\<close> that are present and not the empty string, in order and joined by
  \<open>", "\<close>: an empty field is left out wherever it stands, so that a rule stored with an
  empty second field is read with its third field in second place.
\<close>

theorem loadPolicyLine_skips_empty_fields:
  "loadPolicyLine_result d
     = concatString (field d ''ptype'') @ '', '' @ joinWith '', '' (presentFields d)
   \<and> loadPolicyLine_result
        [(''ptype'', BStr pt), (''v0'', BStr (x # xs)), (''v1'', BStr []), (''v2'', BStr (y # ys))]
     = pt @ '', '' @ (x # xs) @ '', '' @ (y # ys)"
proof -
  have "presentFields
          [(''ptype'', BStr pt), (''v0'', BStr (x # xs)), (''v1'', BStr []), (''v2'', BStr (y # ys))]
        = [x # xs, y # ys]"
    by (simp add: presentFields_def field_def upt_rec vkey_def)
  moreover have "field
          [(''ptype'', BStr pt), (''v0'', BStr (x # xs)), (''v1'', BStr []), (''v2'', BStr (y # ys))]
          ''ptype'' = Some pt"
    by (simp add: field_def)
  ultimately show ?thesis
    by (simp add: loadPolicyLine_result_eq)
qed

theorem loadPolicyLine_skips_empty_fields_witness:
  "loadPolicyLine_result
     [(''ptype'', BStr ''p''), (''v0'', BStr ''alice''), (''v1'', BStr ''''),
      (''v2'', BStr ''read''), (''createdAt'', BDate 1), (''updatedAt'', BDate 1)]
     = ''p, alice, read''"
  using loadPolicyLine_skips_empty_fields
    [of "[(''ptype'', BStr ''p''), (''v0'', BStr ''alice''), (''v1'', BStr ''''),
          (''v2'', BStr ''read''), (''createdAt'', BDate 1), (''updatedAt'', BDate 1)]"]
  by (simp add: presentFields_def field_def upt_rec vkey_def)

lemma forEach_recorder:
  "forEach_loadPolicyLine (\<lambda>line m. Inr (m @ [line])) ds acc
     = (Inr (), acc @ map loadPolicyLine_result ds)"
  by (induction ds arbitrary: acc) (simp_all add: loadPolicyLine_def)

lemma getFilteredPolicyLines_ok:
  assumes "faults s = (\<lambda>k. None)"
  shows "getFilteredPolicyLines a flt s
     = (Inr (reply (Find (if useFilter a then flt else None)) (coll s)),
        s\<lparr>calls := calls s @ [GetCollection, Find (if useFilter a then flt else None)]\<rparr>)"
  using assms
  by (simp add: getFilteredPolicyLines_def getCollection_ok andThen_def exec_ok)

lemma loadFilteredPolicy_ok:
  assumes "faults s = (\<lambda>k. None)"
  shows "loadFilteredPolicy a hook model flt s
     = ((case forEach_loadPolicyLine hook
               (reply (Find (if useFilter a then flt else None)) (coll s)) model of
           (Inl e, model') \<Rightarrow> (Inl (wrapError e ''Failed to load filtered policy''), model', a)
         | (Inr u, model') \<Rightarrow> (Inr (), model', a)),
        s\<lparr>calls := calls s @ [GetCollection, Find (if useFilter a then flt else None)]\<rparr>)"
  unfolding loadFilteredPolicy_def getFilteredPolicyLines_ok [OF assms]
  by (simp split: prod.splits sum.splits)

text \<open>
  \<open>loadPolicy\<close> reads every document of the collection, whatever the filtering flag, and
  changes nothing in the store; it hands the line of each document to the enforcer's hook,
  once for each document and in the order of the collection: a hook that records its
  lines ends with exactly the lines of the documents.
\<close>

lemma loadPolicy_reads_every_document:
  assumes "faults s = (\<lambda>k. None)"
  shows "snd (loadPolicy a hook model s) = s\<lparr>calls := calls s @ [GetCollection, Find None]\<rparr>
   \<and> fst (snd (fst (loadPolicy a hook model s)))
       = snd (forEach_loadPolicyLine hook (contents (coll s)) model)
   \<and> fst (loadPolicy a (\<lambda>line m. Inr (m @ [line])) [] s)
       = (Inr (), map loadPolicyLine_result (contents (coll s)), a)"
proof -
  have 1: "snd (loadPolicy a hook model s) = s\<lparr>calls := calls s @ [GetCollection, Find None]\<rparr>"
    by (simp add: loadPolicy_def loadFilteredPolicy_ok [OF assms])
  have 2: "fst (snd (fst (loadPolicy a hook model s)))
       = snd (forEach_loadPolicyLine hook (contents (coll s)) model)"
    by (simp add: loadPolicy_def loadFilteredPolicy_ok [OF assms] split: prod.splits sum.splits)
  have 3: "fst (loadPolicy a (\<lambda>line m. Inr (m @ [line])) [] s)
       = (Inr (), map loadPolicyLine_result (contents (coll s)), a)"
    by (simp add: loadPolicy_def loadFilteredPolicy_ok [OF assms] forEach_recorder)
  from 1 2 3 show ?thesis by blast
qed

text \<open>
  C6. The load operation is to turn every stored rule document into the line
  \<open>ptype, v0, v1, ..\<close> in which only the absent trailing fields are omitted, and to hand
  that line to the hook once for each document. For the rule \<open>(alice, '', read)\<close> it does
  not: the rule is stored, and keyed for update and removal, with its empty \<open>v1\<close> in
  place, and the line as stated is \<open>p, alice, , read\<close>; the line that \<open>loadPolicy\<close> hands
  to the hook is \<open>p, alice, read\<close>, a rule of two fields.
\<close>

theorem loadPolicy_loses_empty_field:
  "coll (snd (addPolicy exampleAdapter 1 ''p'' ''p'' [''alice'', '''', ''read''] emptyStore))
     = Some [[(''ptype'', BStr ''p''), (''v0'', BStr ''alice''), (''v1'', BStr ''''),
              (''v2'', BStr ''read''), (''createdAt'', BDate 1), (''updatedAt'', BDate 1)]]
   \<and> deletePolicyLine ''p'' [''alice'', '''', ''read'']
     = [(''ptype'', BStr ''p''), (''v0'', BStr ''alice''), (''v1'', BStr ''''),
        (''v2'', BStr ''read'')]
   \<and> lineAsStated
        [(''ptype'', BStr ''p''), (''v0'', BStr ''alice''), (''v1'', BStr ''''),
         (''v2'', BStr ''read''), (''createdAt'', BDate 1), (''updatedAt'', BDate 1)]
     = ''p, alice, , read''
   \<and> fst (loadPolicy exampleAdapter (\<lambda>line m. Inr (m @ [line])) []
            (snd (addPolicy exampleAdapter 1 ''p'' ''p'' [''alice'', '''', ''read''] emptyStore)))
     = (Inr (), [''p, alice, read''], exampleAdapter)"
  by (simp add: addPolicy_def loadPolicy_def loadFilteredPolicy_def getFilteredPolicyLines_def
      run_defs line_defs emptyStore_def exampleAdapter_def loadPolicyLine_def
      loadPolicyLine_result_def lineAsStated_def fieldsAsStated_def field_def)

text \<open>
  C7 (as amended). \<open>loadFilteredPolicy\<close> reads with the given filter when the filtering
  flag of the adapter is set, and reads every document, whatever the filter, when it is
  not; it changes nothing in the store. It assigns no flag: after the call \<open>isFiltered\<close>
  answers what it answered before, which is the filtering flag that the constructor was
  given.
\<close>

theorem loadFilteredPolicy_filter_and_flag:
  assumes "faults s = (\<lambda>k. None)"
  shows "snd (loadFilteredPolicy a hook model flt s)
       = s\<lparr>calls := calls s @ [GetCollection, Find (if useFilter a then flt else None)]\<rparr>
   \<and> fst (loadFilteredPolicy a (\<lambda>line m. Inr (m @ [line])) [] flt s)
       = (Inr (),
          map loadPolicyLine_result
            (if useFilter a
             then (case flt of None \<Rightarrow> contents (coll s)
                   | Some q \<Rightarrow> filter (matches q) (contents (coll s)))
             else contents (coll s)),
          a)
   \<and> isFiltered (snd (snd (fst (loadFilteredPolicy a hook model flt s)))) = isFiltered a
   \<and> (new_MongoAdapter newMongoClient uri database collection filtered options dropOnSave = Inr a
        \<longrightarrow> isFiltered a = filtered)"
proof -
  have 1: "snd (loadFilteredPolicy a hook model flt s)
       = s\<lparr>calls := calls s @ [GetCollection, Find (if useFilter a then flt else None)]\<rparr>"
    by (simp add: loadFilteredPolicy_ok [OF assms])
  have 2: "fst (loadFilteredPolicy a (\<lambda>line m. Inr (m @ [line])) [] flt s)
       = (Inr (),
          map loadPolicyLine_result
            (if useFilter a
             then (case flt of None \<Rightarrow> contents (coll s)
                   | Some q \<Rightarrow> filter (matches q) (contents (coll s)))
             else contents (coll s)),
          a)"
    by (simp add: loadFilteredPolicy_ok [OF assms] forEach_recorder split: option.splits)
  have 3: "isFiltered (snd (snd (fst (loadFilteredPolicy a hook model flt s)))) = isFiltered a"
    by (simp add: loadFilteredPolicy_ok [OF assms] split: prod.splits sum.splits)
  have 4: "isFiltered a = filtered"
    if "new_MongoAdapter newMongoClient uri database collection filtered options dropOnSave = Inr a"
    using that
    by (auto simp: new_MongoAdapter_def isFiltered_def split: if_splits sum.splits)
  from 1 2 3 4 show ?thesis by blast
qed

theorem loadFilteredPolicy_filter_and_flag_witness:
  "fst (loadFilteredPolicy (exampleAdapter\<lparr>useFilter := True\<rparr>) (\<lambda>line m. Inr (m @ [line])) []
          (Some [(''v0'', BStr ''eve'')])
     \<lparr>coll = Some
         [[(''ptype'', BStr ''p''), (''v0'', BStr ''david''), (''v1'', BStr ''data4''),
           (''v2'', BStr ''read''), (''createdAt'', BDate 1), (''updatedAt'', BDate 1)],
          [(''ptype'', BStr ''p''), (''v0'', BStr ''eve''), (''v1'', BStr ''data5''),
           (''v2'', BStr ''write''), (''createdAt'', BDate 2), (''updatedAt'', BDate 2)]],
      calls = [], faults = (\<lambda>k. None), choice = (\<lambda>k. 0)\<rparr>)
   = (Inr (), [''p, eve, data5, write''], exampleAdapter\<lparr>useFilter := True\<rparr>)
   \<and> isFiltered (exampleAdapter\<lparr>useFilter := True\<rparr>)"
proof -
  let ?s = "\<lparr>coll = Some
         [[(''ptype'', BStr ''p''), (''v0'', BStr ''david''), (''v1'', BStr ''data4''),
           (''v2'', BStr ''read''), (''createdAt'', BDate 1), (''updatedAt'', BDate 1)],
          [(''ptype'', BStr ''p''), (''v0'', BStr ''eve''), (''v1'', BStr ''data5''),
           (''v2'', BStr ''write''), (''createdAt'', BDate 2), (''updatedAt'', BDate 2)]],
      calls = [], faults = (\<lambda>k. None), choice = (\<lambda>k. 0)\<rparr>"
  let ?a = "exampleAdapter\<lparr>useFilter := True\<rparr>"
  have h: "faults ?s = (\<lambda>k. None)" by simp
  from loadFilteredPolicy_filter_and_flag
    [OF h, where a = ?a and flt = "Some [(''v0'', BStr ''eve'')]", THEN conjunct2, THEN conjunct1]
  show ?thesis
    by (simp add: loadPolicyLine_result_def field_def matches_def isFiltered_def)
qed

text \<open>
  An adapter constructed without the filtering flag answers \<open>false\<close> to \<open>isFiltered\<close>
  after a filtered load that succeeded.
\<close>

theorem loadFilteredPolicy_sets_no_flag_counterexample:
  "new_MongoAdapter (\<lambda>uri options. Inr ()) ''mongodb://localhost:27017'' ''casbin'' ''policies''
       False () False
     = Inr exampleAdapter
   \<and> fst (fst (loadFilteredPolicy exampleAdapter (\<lambda>line m. Inr (m @ [line])) []
               (Some [(''v0'', BStr ''eve'')]) emptyStore))
     = Inr ()
   \<and> \<not> isFiltered (snd (snd (fst (loadFilteredPolicy exampleAdapter (\<lambda>line m. Inr (m @ [line])) []
                                   (Some [(''v0'', BStr ''eve'')]) emptyStore))))"
  by (simp add: new_MongoAdapter_def exampleAdapter_def emptyStore_def isFiltered_def
      loadFilteredPolicy_def getFilteredPolicyLines_def run_defs)

section \<open>Construction\<close>

text \<open>
  C9. The constructor fails with the configuration error when the connection string is
  empty, whatever its other arguments and without consulting even the client's
  constructor; it reads and writes nothing but its arguments, so no call on the store
  comes before the failure. With a connection string that is not empty it never fails
  with that error: it returns the adapter, or the wrapped error of the client's
  constructor.
\<close>

theorem constructor_requires_uri:
  "new_MongoAdapter newMongoClient [] database collection filtered options dropOnSave
     = Inl (MongoAdapterError ''MongoDB URI is required.'' None)
   \<and> (uri \<noteq> [] \<longrightarrow>
        new_MongoAdapter newMongoClient uri database collection filtered options dropOnSave
          \<noteq> Inl (MongoAdapterError ''MongoDB URI is required.'' None))
   \<and> (uri \<noteq> [] \<longrightarrow>
        new_MongoAdapter newMongoClient uri database collection filtered options dropOnSave
          = (case newMongoClient uri options of
               Inl e \<Rightarrow> Inl (wrapError e ''Failed to create MongoClient'')
             | Inr client \<Rightarrow>
                 Inr \<lparr>databaseName = database, collectionName = collection,
                      dropCollectionOnManualSave = dropOnSave, useFilter = filtered\<rparr>))"
  by (simp add: new_MongoAdapter_def wrapError_def split: sum.splits)

theorem constructor_requires_uri_witness:
  "new_MongoAdapter (\<lambda>uri options. Inl (DriverError ''unreachable'')) [] ''casbin'' ''policies''
       False () False
     = Inl (MongoAdapterError ''MongoDB URI is required.'' None)
   \<and> new_MongoAdapter (\<lambda>uri options. Inr ()) ''mongodb://localhost:27017'' ''casbin''
       ''policies'' False () False
     = Inr exampleAdapter
   \<and> new_MongoAdapter (\<lambda>uri options. Inl (DriverError ''Invalid scheme'')) ''invalid://uri''
       ''casbin'' ''policies'' False () False
     = Inl (MongoAdapterError ''Failed to create MongoClient: Invalid scheme''
              (Some (DriverError ''Invalid scheme'')))"
  using constructor_requires_uri
    [of "\<lambda>uri options. Inl (DriverError ''unreachable'')" "''casbin''" "''policies''" False "()"
        False "''x''"]
  by (simp add: new_MongoAdapter_def wrapError_def exampleAdapter_def)

end
